theory Spec2Isabelle
  imports Main
begin

section \<open>Python values and exceptions\<close>

text \<open>
  Documents, DNS record sets and response bodies are JSON values. A Python dict is an
  association list read with \<open>map_of\<close>. \<open>json.dumps\<close> followed by \<open>json.loads\<close> is
  taken to give the value back, so a stored document is kept as the value itself.
\<close>

datatype json =
    JNull
  | JBool bool
  | JNum int
  | JStr string
  | JArr "json list"
  | JObj "(string \<times> json) list"

text \<open>
  The exceptions the three handlers can meet. \<open>ClientError code message operation\<close> is
  botocore's \<open>ClientError\<close>: the code and the message of \<open>e.response['Error']\<close> and the
  name of the operation that was called. \<open>BotoCoreError\<close> stands for the failures of the
  SDK that are not a \<open>ClientError\<close> (no connection, a time-out, parameter validation) and
  carries their text. \<open>TypeError\<close> and \<open>ValueError\<close> carry their message; \<open>ValueError\<close>
  is what \<open>decode\<close> and \<open>json.loads\<close> raise.
\<close>

datatype exn =
    ClientError string string string
  | KeyError string
  | TypeError string
  | ValueError string
  | BotoCoreError string

text \<open>\<open>str(e)\<close>. For a \<open>ClientError\<close> it is the text botocore builds from the code, the
  operation and the message (for a request that was not retried); for a \<open>KeyError\<close> it
  is the key between quotes.\<close>

fun str_exn :: "exn \<Rightarrow> string" where
  "str_exn (ClientError code msg operation) =
     ''An error occurred ('' @ code @ '') when calling the '' @ operation @ '' operation: '' @ msg"
| "str_exn (KeyError k) = [CHR 0x27] @ k @ [CHR 0x27]"
| "str_exn (TypeError msg) = msg"
| "str_exn (ValueError msg) = msg"
| "str_exn (BotoCoreError msg) = msg"

fun error_code :: "exn \<Rightarrow> string option" where
  "error_code (ClientError code msg operation) = Some code"
| "error_code _ = None"

fun is_ClientError :: "exn \<Rightarrow> bool" where
  "is_ClientError (ClientError code msg operation) = True"
| "is_ClientError _ = False"

text \<open>The name of the type of a value, as the messages of a \<open>TypeError\<close> give it.\<close>

fun type_name :: "json \<Rightarrow> string" where
  "type_name JNull = ''NoneType''"
| "type_name (JBool b) = ''bool''"
| "type_name (JNum n) = ''int''"
| "type_name (JStr s) = ''str''"
| "type_name (JArr xs) = ''list''"
| "type_name (JObj kvs) = ''dict''"

definition quoted :: "string \<Rightarrow> string" where
  "quoted s = [CHR 0x27] @ s @ [CHR 0x27]"

text \<open>\<open>v[k]\<close> for a string key: a missing key raises \<open>KeyError\<close>, a value that is not a
  dict raises \<open>TypeError\<close>.\<close>

fun subscript :: "json \<Rightarrow> string \<Rightarrow> exn + json" where
  "subscript (JObj kvs) k = (case map_of kvs k of None \<Rightarrow> Inl (KeyError k) | Some v \<Rightarrow> Inr v)"
| "subscript (JArr xs) k = Inl (TypeError ''list indices must be integers or slices, not str'')"
| "subscript (JStr s) k = Inl (TypeError (''string indices must be integers, not '' @ quoted ''str''))"
| "subscript v k = Inl (TypeError (quoted (type_name v) @ '' object is not subscriptable''))"

text \<open>\<open>for r in v\<close>: a list gives its elements, a dict its keys, a string its characters;
  nothing else is iterable.\<close>

fun iterate :: "json \<Rightarrow> exn + json list" where
  "iterate (JArr xs) = Inr xs"
| "iterate (JObj kvs) = Inr (map (\<lambda>kv. JStr (fst kv)) kvs)"
| "iterate (JStr s) = Inr (map (\<lambda>c. JStr [c]) s)"
| "iterate v = Inl (TypeError (quoted (type_name v) @ '' object is not iterable''))"

fun isinstance_list :: "json \<Rightarrow> bool" where
  "isinstance_list (JArr xs) = True"
| "isinstance_list _ = False"

subsection \<open>String operations\<close>

text \<open>\<open>s.split(c)\<close>: the pieces between the separators; never an empty list.\<close>

fun split :: "char \<Rightarrow> string \<Rightarrow> string list" where
  "split c [] = [[]]"
| "split c (x # xs) =
     (if x = c then [] # split c xs
      else (x # hd (split c xs)) # tl (split c xs))"

text \<open>\<open>s.rstrip(c)\<close>: every trailing \<open>c\<close> is removed.\<close>

definition rstrip :: "char \<Rightarrow> string \<Rightarrow> string" where
  "rstrip c s = rev (dropWhile (\<lambda>x. x = c) (rev s))"

subsection \<open>Timestamps\<close>

record datetime =
  year :: nat
  month :: nat
  day :: nat
  hour :: nat
  minute :: nat
  second :: nat

definition digit :: "nat \<Rightarrow> char" where
  "digit n = ''0123456789'' ! (n mod 10)"

fun decimal :: "nat \<Rightarrow> string" where
  "decimal n = (if n < 10 then [digit n] else decimal (n div 10) @ [digit n])"

declare decimal.simps [simp del]

definition two_digits :: "nat \<Rightarrow> string" where
  "two_digits n = [digit (n div 10), digit n]"

text \<open>The directives of \<open>strftime\<close> the handlers use. \<open>%Y\<close> is the year as a decimal number
  (four digits from the year 1000 on), the others are zero-padded to two digits.\<close>

fun directive :: "datetime \<Rightarrow> char \<Rightarrow> string" where
  "directive dt c =
     (if c = CHR ''Y'' then decimal (year dt)
      else if c = CHR ''m'' then two_digits (month dt)
      else if c = CHR ''d'' then two_digits (day dt)
      else if c = CHR ''H'' then two_digits (hour dt)
      else if c = CHR ''M'' then two_digits (minute dt)
      else if c = CHR ''S'' then two_digits (second dt)
      else [CHR ''%'', c])"

fun strftime :: "datetime \<Rightarrow> string \<Rightarrow> string" where
  "strftime dt [] = []"
| "strftime dt [x] = [x]"
| "strftime dt (x # y # rest) =
     (if x = CHR ''%'' then directive dt y @ strftime dt rest
      else x # strftime dt (y # rest))"

section \<open>The two services\<close>

record hosted_zone =
  zone_Id :: string
  zone_Name :: string

text \<open>What a key holds: a JSON document, or bytes that \<open>decode\<close> or \<open>json.loads\<close>
  refuses, with the message of the \<open>ValueError\<close> raised on them.\<close>

datatype body = Document json | Malformed string

text \<open>
  The world a handler runs in. \<open>environ\<close>, \<open>now\<close>, \<open>HostedZones\<close> and
  \<open>ResourceRecordSets\<close> (the pages of record sets of a zone) are read only. \<open>script\<close>
  gives the outcome of each coming request to a service, in order: \<open>Some e\<close> makes the
  request raise \<open>e\<close>, \<open>None\<close> (and an exhausted script) lets it through. \<open>objects\<close> is
  the object store, by bucket and key. \<open>put_log\<close> lists the accepted \<open>put_object\<close>
  requests and \<open>change_log\<close> every \<open>change_resource_record_sets\<close> request with its
  outcome, both in order.
\<close>

record world =
  environ :: "string \<rightharpoonup> string"
  now :: datetime
  HostedZones :: "hosted_zone list"
  ResourceRecordSets :: "string \<Rightarrow> json list list"
  script :: "exn option list"
  objects :: "string \<times> string \<rightharpoonup> body"
  put_log :: "(string \<times> string \<times> json) list"
  change_log :: "(string \<times> json list \<times> exn option) list"

datatype 'a result = Raise exn world | Ok 'a world

fun world_of :: "'a result \<Rightarrow> world" where
  "world_of (Raise e w) = w"
| "world_of (Ok x w) = w"

definition request :: "world \<Rightarrow> exn option \<times> world" where
  "request w = (case script w of [] \<Rightarrow> (None, w) | f # fs \<Rightarrow> (f, w\<lparr>script := fs\<rparr>))"

definition NoSuchKey :: exn where
  "NoSuchKey = ClientError ''NoSuchKey'' ''The specified key does not exist.'' ''GetObject''"

definition get_object :: "string \<Rightarrow> string \<Rightarrow> world \<Rightarrow> body result" where
  "get_object Bucket Key w =
     (case request w of
        (Some e, w') \<Rightarrow> Raise e w'
      | (None, w') \<Rightarrow>
          (case objects w' (Bucket, Key) of
             None \<Rightarrow> Raise NoSuchKey w'
           | Some b \<Rightarrow> Ok b w'))"

definition put_object :: "string \<Rightarrow> string \<Rightarrow> json \<Rightarrow> world \<Rightarrow> unit result" where
  "put_object Bucket Key Body w =
     (case request w of
        (Some e, w') \<Rightarrow> Raise e w'
      | (None, w') \<Rightarrow>
          Ok () (w'\<lparr>objects := (objects w')((Bucket, Key) \<mapsto> Document Body),
                    put_log := put_log w' @ [(Bucket, Key, Body)]\<rparr>))"

definition list_hosted_zones :: "world \<Rightarrow> hosted_zone list result" where
  "list_hosted_zones w =
     (case request w of
        (Some e, w') \<Rightarrow> Raise e w'
      | (None, w') \<Rightarrow> Ok (HostedZones w') w')"

definition change_resource_record_sets :: "string \<Rightarrow> json list \<Rightarrow> world \<Rightarrow> unit result" where
  "change_resource_record_sets HostedZoneId Changes w =
     (case request w of
        (Some e, w') \<Rightarrow> Raise e (w'\<lparr>change_log := change_log w' @ [(HostedZoneId, Changes, Some e)]\<rparr>)
      | (None, w') \<Rightarrow> Ok () (w'\<lparr>change_log := change_log w' @ [(HostedZoneId, Changes, None)]\<rparr>))"

text \<open>\<open>json.loads(response['Body'].read().decode('utf-8'))\<close>\<close>

fun json_loads :: "body \<Rightarrow> exn + json" where
  "json_loads (Document j) = Inr j"
| "json_loads (Malformed msg) = Inl (ValueError msg)"

text \<open>The paginator: one request per page, each page's record sets appended to
  \<open>records\<close>.\<close>

fun paginate :: "json list list \<Rightarrow> json list \<Rightarrow> world \<Rightarrow> json list result" where
  "paginate [] records w = Ok records w"
| "paginate (page # pages) records w =
     (case request w of
        (Some e, w') \<Rightarrow> Raise e w'
      | (None, w') \<Rightarrow> paginate pages (records @ page) w')"

section \<open>What a handler gives back\<close>

record response =
  statusCode :: int
  response_body :: json

datatype outcome = Returned response | Crashed exn

section \<open>restore\_lambda.py\<close>

type_synonym event = "string \<rightharpoonup> string"

definition batch_size :: nat where
  "batch_size = 100"

text \<open>\<open>[r for r in records if r['Type'] not in ['NS', 'SOA']]\<close>: the first record without a
  readable \<open>Type\<close> raises.\<close>

fun filter_records :: "json list \<Rightarrow> exn + json list" where
  "filter_records [] = Inr []"
| "filter_records (r # rs) =
     (case subscript r ''Type'' of
        Inl e \<Rightarrow> Inl e
      | Inr t \<Rightarrow>
          (case filter_records rs of
             Inl e \<Rightarrow> Inl e
           | Inr fs \<Rightarrow> Inr (if t \<notin> set [JStr ''NS'', JStr ''SOA''] then r # fs else fs)))"

definition create_change :: "json \<Rightarrow> json" where
  "create_change record = JObj [(''Action'', JStr ''CREATE''), (''ResourceRecordSet'', record)]"

text \<open>\<open>for i in range(0, len(filtered_records), batch_size)\<close>, from the index \<open>i\<close> on.\<close>

function restore_batches :: "string \<Rightarrow> json list \<Rightarrow> nat \<Rightarrow> world \<Rightarrow> unit result" where
  "restore_batches hosted_zone_id filtered_records i w =
     (if i < length filtered_records then
        (let batch = take batch_size (drop i filtered_records);
             changes = map create_change batch
         in case change_resource_record_sets hosted_zone_id changes w of
              Raise e w' \<Rightarrow> Raise e w'
            | Ok u w' \<Rightarrow> restore_batches hosted_zone_id filtered_records (i + batch_size) w')
      else Ok () w)"
  by pat_completeness auto
termination
  by (relation "measure (\<lambda>(z, fs, i, w). length fs - i)") (auto simp: batch_size_def)

declare restore_batches.simps [simp del]

text \<open>Lines 30 and 31: the records of the document, without those of type NS or SOA.\<close>

definition filtered_records_of :: "json \<Rightarrow> exn + json list" where
  "filtered_records_of backup_data =
     (case subscript backup_data ''records'' of
        Inl e \<Rightarrow> Inl e
      | Inr records \<Rightarrow>
          (case iterate records of
             Inl e \<Rightarrow> Inl e
           | Inr rs \<Rightarrow> filter_records rs))"

definition restore_completed :: "string \<Rightarrow> response" where
  "restore_completed hosted_zone_id =
     \<lparr>statusCode = 200,
      response_body = JObj [(''message'', JStr ''Restore operation completed''),
                            (''restored_zone_id'', JStr hosted_zone_id)]\<rparr>"

definition restore_failed :: "exn \<Rightarrow> response" where
  "restore_failed e =
     \<lparr>statusCode = 500,
      response_body = JObj [(''message'', JStr ''Restore operation failed''),
                            (''error'', JStr (str_exn e))]\<rparr>"

definition restore_try :: "world \<Rightarrow> event \<Rightarrow> response result" where
  "restore_try w event =
     (case environ w ''BACKUP_BUCKET'' of
        None \<Rightarrow> Raise (KeyError ''BACKUP_BUCKET'') w
      | Some backup_bucket \<Rightarrow>
     (case event ''backup_key'' of
        None \<Rightarrow> Raise (KeyError ''backup_key'') w
      | Some backup_key \<Rightarrow>
     (case event ''hosted_zone_id'' of
        None \<Rightarrow> Raise (KeyError ''hosted_zone_id'') w
      | Some hosted_zone_id \<Rightarrow>
     (case get_object backup_bucket backup_key w of
        Raise e w1 \<Rightarrow> Raise e w1
      | Ok response w1 \<Rightarrow>
     (case json_loads response of
        Inl e \<Rightarrow> Raise e w1
      | Inr backup_data \<Rightarrow>
     (case filtered_records_of backup_data of
        Inl e \<Rightarrow> Raise e w1
      | Inr filtered_records \<Rightarrow>
     (case restore_batches hosted_zone_id filtered_records 0 w1 of
        Raise e w2 \<Rightarrow> Raise e w2
      | Ok u w2 \<Rightarrow> Ok (restore_completed hosted_zone_id) w2)))))))"

text \<open>The handler: \<open>except ClientError\<close> turns a \<open>ClientError\<close> into the 500 response; any
  other exception leaves the handler.\<close>

definition restore_lambda_handler :: "world \<Rightarrow> event \<Rightarrow> outcome \<times> world" where
  "restore_lambda_handler w event =
     (case restore_try w event of
        Ok r w' \<Rightarrow> (Returned r, w')
      | Raise e w' \<Rightarrow>
          (if is_ClientError e then (Returned (restore_failed e), w')
           else (Crashed e, w')))"

text \<open>The change requests a restore run makes: what it adds to \<open>change_log\<close>.\<close>

definition submitted :: "world \<Rightarrow> event \<Rightarrow> (string \<times> json list \<times> exn option) list" where
  "submitted w event =
     drop (length (change_log w)) (change_log (snd (restore_lambda_handler w event)))"

section \<open>backup\_lambda.py\<close>

definition zone_id_of :: "hosted_zone \<Rightarrow> string" where
  "zone_id_of zone = last (split CHR ''/'' (zone_Id zone))"

definition zone_name_of :: "hosted_zone \<Rightarrow> string" where
  "zone_name_of zone = rstrip CHR ''.'' (zone_Name zone)"

definition backup_failed :: "exn \<Rightarrow> response" where
  "backup_failed e =
     \<lparr>statusCode = 500,
      response_body = JObj [(''message'', JStr ''Backup operation failed''),
                            (''error'', JStr (str_exn e))]\<rparr>"

definition backup_file_key :: "string \<Rightarrow> string \<Rightarrow> string" where
  "backup_file_key current_date zone_name =
     current_date @ ''/'' @ zone_name @ ''/route53_backup.json''"

definition backup_data :: "string \<Rightarrow> string \<Rightarrow> json list \<Rightarrow> json" where
  "backup_data zone_id zone_name records =
     JObj [(''zone'', JObj [(''Id'', JStr zone_id), (''Name'', JStr zone_name)]),
           (''records'', JArr records)]"

text \<open>The body of \<open>for zone in hosted_zones\<close>.\<close>

definition backup_zone :: "string \<Rightarrow> string \<Rightarrow> hosted_zone \<Rightarrow> world \<Rightarrow> unit result" where
  "backup_zone backup_bucket current_date zone w =
     (let zone_id = zone_id_of zone;
          zone_name = zone_name_of zone
      in case paginate (ResourceRecordSets w zone_id) [] w of
           Raise e w1 \<Rightarrow> Raise e w1
         | Ok records w1 \<Rightarrow>
             put_object backup_bucket (backup_file_key current_date zone_name)
               (backup_data zone_id zone_name records) w1)"

fun backup_zones :: "string \<Rightarrow> string \<Rightarrow> hosted_zone list \<Rightarrow> world \<Rightarrow> unit result" where
  "backup_zones backup_bucket current_date [] w = Ok () w"
| "backup_zones backup_bucket current_date (zone # zones) w =
     (case backup_zone backup_bucket current_date zone w of
        Raise e w1 \<Rightarrow> Raise e w1
      | Ok u w1 \<Rightarrow> backup_zones backup_bucket current_date zones w1)"

definition backup_try :: "world \<Rightarrow> response result" where
  "backup_try w =
     (case environ w ''BACKUP_BUCKET'' of
        None \<Rightarrow> Raise (KeyError ''BACKUP_BUCKET'') w
      | Some backup_bucket \<Rightarrow>
     (case list_hosted_zones w of
        Raise e w1 \<Rightarrow> Raise e w1
      | Ok hosted_zones w1 \<Rightarrow>
     (let current_date = strftime (now w1) ''%Y%m%d_%H%M%S''
      in case backup_zones backup_bucket current_date hosted_zones w1 of
           Raise e w2 \<Rightarrow> Raise e w2
         | Ok u w2 \<Rightarrow>
             Ok \<lparr>statusCode = 200,
                 response_body = JObj [(''message'', JStr ''Backup operation completed''),
                                       (''backup_bucket'', JStr backup_bucket),
                                       (''date'', JStr current_date)]\<rparr> w2)))"

text \<open>The handler: \<open>except Exception\<close> turns every exception into the 500 response.\<close>

definition backup_lambda_handler :: "world \<Rightarrow> outcome \<times> world" where
  "backup_lambda_handler w =
     (case backup_try w of
        Ok r w' \<Rightarrow> (Returned r, w')
      | Raise e w' \<Rightarrow> (Returned (backup_failed e), w'))"

section \<open>backup-lambda-with-multiple-hostedzone-name.py\<close>

definition multi_backup_file_key :: "string \<Rightarrow> string \<Rightarrow> string \<Rightarrow> string" where
  "multi_backup_file_key current_date zone_name zone_id =
     current_date @ ''/'' @ zone_name @ ''/'' @ zone_id @ ''/route53_backup.json''"

definition summary_file_key :: "string \<Rightarrow> string \<Rightarrow> string" where
  "summary_file_key current_date zone_name =
     current_date @ ''/'' @ zone_name @ ''/zone_summary.json''"

definition multi_backup_data :: "string \<Rightarrow> string \<Rightarrow> json list \<Rightarrow> json" where
  "multi_backup_data zone_id zone_name records =
     JObj [(''zone'', JObj [(''Id'', JStr zone_id), (''Name'', JStr zone_name),
                            (''RecordCount'', JNum (int (length records)))]),
           (''records'', JArr records)]"

definition summary_data :: "string \<Rightarrow> string \<Rightarrow> json list \<Rightarrow> string \<Rightarrow> json" where
  "summary_data zone_name zone_id records backup_key =
     JObj [(''zone_name'', JStr zone_name),
           (''zone_id'', JStr zone_id),
           (''record_count'', JNum (int (length records))),
           (''backup_path'', JStr backup_key)]"

text \<open>Lines 36 to 40: the count of the name, after this zone.\<close>

definition count_zone_name :: "(string \<rightharpoonup> nat) \<Rightarrow> string \<Rightarrow> (string \<rightharpoonup> nat)" where
  "count_zone_name zone_name_count zone_name =
     (case zone_name_count zone_name of
        Some n \<Rightarrow> zone_name_count(zone_name \<mapsto> n + 1)
      | None \<Rightarrow> zone_name_count(zone_name \<mapsto> 1))"

text \<open>Lines 81 to 96: the summary to write. Only a \<open>ClientError\<close> whose code is
  \<open>NoSuchKey\<close> is taken for a missing summary; everything else is raised again.\<close>

definition read_summary :: "string \<Rightarrow> string \<Rightarrow> json \<Rightarrow> world \<Rightarrow> json result" where
  "read_summary backup_bucket summary_key entry w =
     (case get_object backup_bucket summary_key w of
        Ok existing_summary w1 \<Rightarrow>
          (case json_loads existing_summary of
             Inl e \<Rightarrow> Raise e w1
           | Inr summary_content \<Rightarrow>
               (case summary_content of
                  JArr xs \<Rightarrow> Ok (JArr (xs @ [entry])) w1
                | _ \<Rightarrow> Ok (JArr [summary_content, entry]) w1))
      | Raise e w1 \<Rightarrow>
          (if is_ClientError e then
             (if error_code e = Some ''NoSuchKey'' then Ok (JArr [entry]) w1
              else Raise e w1)
           else Raise e w1))"

text \<open>Lines 80 to 103: read, merge, write.\<close>

definition update_summary :: "string \<Rightarrow> string \<Rightarrow> json \<Rightarrow> world \<Rightarrow> unit result" where
  "update_summary backup_bucket summary_key entry w =
     (case read_summary backup_bucket summary_key entry w of
        Raise e w1 \<Rightarrow> Raise e w1
      | Ok summary_content w1 \<Rightarrow> put_object backup_bucket summary_key summary_content w1)"

definition multi_backup_zone ::
  "string \<Rightarrow> string \<Rightarrow> hosted_zone \<Rightarrow> (string \<rightharpoonup> nat) \<Rightarrow> world \<Rightarrow> (string \<rightharpoonup> nat) result" where
  "multi_backup_zone backup_bucket current_date zone zone_name_count0 w =
     (let zone_id = zone_id_of zone;
          zone_name = zone_name_of zone;
          zone_name_count = count_zone_name zone_name_count0 zone_name
      in case paginate (ResourceRecordSets w zone_id) [] w of
           Raise e w1 \<Rightarrow> Raise e w1
         | Ok records w1 \<Rightarrow>
             (let backup_key = multi_backup_file_key current_date zone_name zone_id
              in case put_object backup_bucket backup_key
                        (multi_backup_data zone_id zone_name records) w1 of
                   Raise e w2 \<Rightarrow> Raise e w2
                 | Ok u w2 \<Rightarrow>
                     (case zone_name_count zone_name of
                        None \<Rightarrow> Raise (KeyError zone_name) w2
                      | Some n \<Rightarrow>
                          (if n > 1 then
                             (case update_summary backup_bucket
                                     (summary_file_key current_date zone_name)
                                     (summary_data zone_name zone_id records backup_key) w2 of
                                Raise e w3 \<Rightarrow> Raise e w3
                              | Ok u w3 \<Rightarrow> Ok zone_name_count w3)
                           else Ok zone_name_count w2))))"

fun multi_backup_zones ::
  "string \<Rightarrow> string \<Rightarrow> hosted_zone list \<Rightarrow> (string \<rightharpoonup> nat) \<Rightarrow> world \<Rightarrow> (string \<rightharpoonup> nat) result" where
  "multi_backup_zones backup_bucket current_date [] zone_name_count w = Ok zone_name_count w"
| "multi_backup_zones backup_bucket current_date (zone # zones) zone_name_count w =
     (case multi_backup_zone backup_bucket current_date zone zone_name_count w of
        Raise e w1 \<Rightarrow> Raise e w1
      | Ok zone_name_count1 w1 \<Rightarrow>
          multi_backup_zones backup_bucket current_date zones zone_name_count1 w1)"

definition zones_backed_up :: "hosted_zone list \<Rightarrow> json" where
  "zones_backed_up hosted_zones =
     JArr (map (\<lambda>zone. JStr (zone_name_of zone @ '' (ID: '' @ zone_id_of zone @ '')''))
               hosted_zones)"

definition multi_backup_try :: "world \<Rightarrow> response result" where
  "multi_backup_try w =
     (case environ w ''BACKUP_BUCKET'' of
        None \<Rightarrow> Raise (KeyError ''BACKUP_BUCKET'') w
      | Some backup_bucket \<Rightarrow>
     (case list_hosted_zones w of
        Raise e w1 \<Rightarrow> Raise e w1
      | Ok hosted_zones w1 \<Rightarrow>
     (let current_date = strftime (now w1) ''%Y-%m-%d_%H:%M:%S''
      in case multi_backup_zones backup_bucket current_date hosted_zones Map.empty w1 of
           Raise e w2 \<Rightarrow> Raise e w2
         | Ok zone_name_count w2 \<Rightarrow>
             Ok \<lparr>statusCode = 200,
                 response_body = JObj [(''message'', JStr ''Backup operation completed''),
                                       (''backup_bucket'', JStr backup_bucket),
                                       (''date'', JStr current_date),
                                       (''zones_backed_up'', zones_backed_up hosted_zones)]\<rparr>
                w2)))"

definition multi_backup_lambda_handler :: "world \<Rightarrow> outcome \<times> world" where
  "multi_backup_lambda_handler w =
     (case multi_backup_try w of
        Ok r w' \<Rightarrow> (Returned r, w')
      | Raise e w' \<Rightarrow> (Returned (backup_failed e), w'))"

section \<open>What a backup run writes\<close>

text \<open>The writes made between two worlds of a run, and their keys.\<close>

definition written :: "world \<Rightarrow> world \<Rightarrow> (string \<times> string \<times> json) list" where
  "written w w' = drop (length (put_log w)) (put_log w')"

definition keys_written :: "world \<Rightarrow> world \<Rightarrow> string list" where
  "keys_written w w' = map (\<lambda>q. fst (snd q)) (written w w')"

text \<open>What the body of the loop computes for a zone: the records fetched, the two keys,
  the backup document and the summary entry, in both variants.\<close>

definition zone_records :: "world \<Rightarrow> hosted_zone \<Rightarrow> json list" where
  "zone_records w zone = concat (ResourceRecordSets w (zone_id_of zone))"

definition zone_key :: "string \<Rightarrow> hosted_zone \<Rightarrow> string" where
  "zone_key current_date zone = backup_file_key current_date (zone_name_of zone)"

definition zone_document :: "world \<Rightarrow> hosted_zone \<Rightarrow> json" where
  "zone_document w zone = backup_data (zone_id_of zone) (zone_name_of zone) (zone_records w zone)"

definition multi_zone_key :: "string \<Rightarrow> hosted_zone \<Rightarrow> string" where
  "multi_zone_key current_date zone =
     multi_backup_file_key current_date (zone_name_of zone) (zone_id_of zone)"

definition zone_summary_key :: "string \<Rightarrow> hosted_zone \<Rightarrow> string" where
  "zone_summary_key current_date zone = summary_file_key current_date (zone_name_of zone)"

definition multi_zone_document :: "world \<Rightarrow> hosted_zone \<Rightarrow> json" where
  "multi_zone_document w zone =
     multi_backup_data (zone_id_of zone) (zone_name_of zone) (zone_records w zone)"

definition zone_entry :: "world \<Rightarrow> string \<Rightarrow> hosted_zone \<Rightarrow> json" where
  "zone_entry w current_date zone =
     summary_data (zone_name_of zone) (zone_id_of zone) (zone_records w zone)
       (multi_zone_key current_date zone)"

text \<open>A script in which no failure poses as a missing key: the object store reports
  \<open>NoSuchKey\<close> only for a key that holds nothing.\<close>

definition honest :: "exn option list \<Rightarrow> bool" where
  "honest s = (\<forall>f \<in> set s. case f of None \<Rightarrow> True | Some e \<Rightarrow> error_code e \<noteq> Some ''NoSuchKey'')"

text \<open>A step that only talks to the services: it writes nothing and uses up some of the
  script.\<close>

definition quiet :: "world \<Rightarrow> world \<Rightarrow> bool" where
  "quiet w w' =
     (environ w' = environ w \<and> now w' = now w \<and> HostedZones w' = HostedZones w \<and>
      ResourceRecordSets w' = ResourceRecordSets w \<and> objects w' = objects w \<and>
      put_log w' = put_log w \<and> (honest (script w) \<longrightarrow> honest (script w')))"

text \<open>A stretch of a run that makes the writes \<open>ps\<close>, in order, and otherwise only talks
  to the services.\<close>

definition store :: "(string \<times> string \<times> json) list \<Rightarrow> (string \<times> string \<rightharpoonup> body)
    \<Rightarrow> (string \<times> string \<rightharpoonup> body)" where
  "store ps ob = fold (\<lambda>q m. m((fst q, fst (snd q)) \<mapsto> Document (snd (snd q)))) ps ob"

definition wrote :: "world \<Rightarrow> (string \<times> string \<times> json) list \<Rightarrow> world \<Rightarrow> bool" where
  "wrote w ps w' =
     (environ w' = environ w \<and> now w' = now w \<and> HostedZones w' = HostedZones w \<and>
      ResourceRecordSets w' = ResourceRecordSets w \<and> objects w' = store ps (objects w) \<and>
      put_log w' = put_log w @ ps \<and> (honest (script w) \<longrightarrow> honest (script w')))"

text \<open>The value lines 87 to 94 make of what the summary key holds.\<close>

fun merge_value :: "body option \<Rightarrow> json \<Rightarrow> json option" where
  "merge_value None entry = Some (JArr [entry])"
| "merge_value (Some (Document (JArr xs))) entry = Some (JArr (xs @ [entry]))"
| "merge_value (Some (Document v)) entry = Some (JArr [v, entry])"
| "merge_value (Some (Malformed msg)) entry = None"

text \<open>The keys a collision-aware run writes for the zones \<open>zs\<close>, when the names in
  \<open>seen\<close> have been met before: the backup key of each zone, followed by the summary
  key when the name of the zone has been met before.\<close>

fun keys_from :: "string \<Rightarrow> string set \<Rightarrow> hosted_zone list \<Rightarrow> string list" where
  "keys_from d seen [] = []"
| "keys_from d seen (z # zs) =
     multi_zone_key d z # (if zone_name_of z \<in> seen then [zone_summary_key d z] else [])
       @ keys_from d (insert (zone_name_of z) seen) zs"

text \<open>What the summary key holds after the entries \<open>es\<close> have been merged in, in order.\<close>

definition summary_after :: "body option \<Rightarrow> json list \<Rightarrow> body option" where
  "summary_after st es =
     fold (\<lambda>e st. case merge_value st e of Some m \<Rightarrow> Some (Document m) | None \<Rightarrow> st) es st"

text \<open>A count of names as lines 36 to 40 keep it: no name is counted zero times.\<close>

definition counted :: "(string \<rightharpoonup> nat) \<Rightarrow> bool" where
  "counted cnt = (\<forall>n c. cnt n = Some c \<longrightarrow> 1 \<le> c)"

text \<open>The two timestamps as the storage layout writes them, digit by digit:
  \<open>YYYYMMDD_HHMMSS\<close> and \<open>YYYY-MM-DD_HH:MM:SS\<close>. \<open>decimal_digit n p\<close> is the digit of
  \<open>n\<close> that counts the \<open>10 ^ p\<close>.\<close>

definition decimal_digit :: "nat \<Rightarrow> nat \<Rightarrow> char" where
  "decimal_digit n p = ''0123456789'' ! (n div 10 ^ p mod 10)"

definition layout_YYYYMMDD_HHMMSS :: "datetime \<Rightarrow> string" where
  "layout_YYYYMMDD_HHMMSS dt =
     [decimal_digit (year dt) 3, decimal_digit (year dt) 2, decimal_digit (year dt) 1,
      decimal_digit (year dt) 0,
      decimal_digit (month dt) 1, decimal_digit (month dt) 0,
      decimal_digit (day dt) 1, decimal_digit (day dt) 0,
      CHR ''_'',
      decimal_digit (hour dt) 1, decimal_digit (hour dt) 0,
      decimal_digit (minute dt) 1, decimal_digit (minute dt) 0,
      decimal_digit (second dt) 1, decimal_digit (second dt) 0]"

definition layout_YYYY_MM_DD_HH_MM_SS :: "datetime \<Rightarrow> string" where
  "layout_YYYY_MM_DD_HH_MM_SS dt =
     [decimal_digit (year dt) 3, decimal_digit (year dt) 2, decimal_digit (year dt) 1,
      decimal_digit (year dt) 0,
      CHR ''-'',
      decimal_digit (month dt) 1, decimal_digit (month dt) 0,
      CHR ''-'',
      decimal_digit (day dt) 1, decimal_digit (day dt) 0,
      CHR ''_'',
      decimal_digit (hour dt) 1, decimal_digit (hour dt) 0,
      CHR '':'',
      decimal_digit (minute dt) 1, decimal_digit (minute dt) 0,
      CHR '':'',
      decimal_digit (second dt) 1, decimal_digit (second dt) 0]"

section \<open>Concrete runs\<close>

definition no_config :: world where
  "no_config =
     \<lparr>environ = Map.empty,
      now = \<lparr>year = 2024, month = 1, day = 2, hour = 3, minute = 4, second = 5\<rparr>,
      HostedZones = [],
      ResourceRecordSets = (\<lambda>z. []),
      script = [],
      objects = Map.empty,
      put_log = [],
      change_log = []\<rparr>"

definition record_A :: json where
  "record_A =
     JObj [(''Name'', JStr ''www.example.com.''), (''Type'', JStr ''A''), (''TTL'', JNum 300),
           (''ResourceRecords'', JArr [JObj [(''Value'', JStr ''192.0.2.1'')]])]"

definition record_NS :: json where
  "record_NS =
     JObj [(''Name'', JStr ''example.com.''), (''Type'', JStr ''NS''), (''TTL'', JNum 172800),
           (''ResourceRecords'', JArr [JObj [(''Value'', JStr ''ns-1.awsdns-01.org.'')]])]"

definition record_SOA :: json where
  "record_SOA =
     JObj [(''Name'', JStr ''example.com.''), (''Type'', JStr ''SOA''), (''TTL'', JNum 900),
           (''ResourceRecords'', JArr [JObj [(''Value'', JStr ''ns-1.awsdns-01.org. hostmaster. 1 7200 900 1209600 86400'')]])]"

text \<open>A restore run: the bucket \<open>backups\<close> holds the document \<open>d\<close> under the key
  \<open>k\<close>, and the services answer by the script \<open>s\<close>.\<close>

definition restore_world :: "json \<Rightarrow> exn option list \<Rightarrow> world" where
  "restore_world d s =
     \<lparr>environ = [''BACKUP_BUCKET'' \<mapsto> ''backups''],
      now = \<lparr>year = 2024, month = 1, day = 2, hour = 3, minute = 4, second = 5\<rparr>,
      HostedZones = [],
      ResourceRecordSets = (\<lambda>z. []),
      script = s,
      objects = [(''backups'', ''k'') \<mapsto> Document d],
      put_log = [],
      change_log = []\<rparr>"

definition restore_event :: event where
  "restore_event = [''backup_key'' \<mapsto> ''k'', ''hosted_zone_id'' \<mapsto> ''Z9'']"

text \<open>A document of 252 records, 250 of them to restore.\<close>

definition doc250 :: json where
  "doc250 = backup_data ''Z1'' ''example.com'' (record_NS # record_SOA # replicate 250 record_A)"

definition Throttling :: exn where
  "Throttling = ClientError ''Throttling'' ''Rate exceeded'' ''ChangeResourceRecordSets''"

text \<open>A backup run over the three zones of the scenario of the specification: two zones
  named \<open>example.com\<close> and one named \<open>other.com\<close>, each with two pages of record sets.\<close>

definition scenario_zones :: "hosted_zone list" where
  "scenario_zones =
     [\<lparr>zone_Id = ''/hostedzone/Z1'', zone_Name = ''example.com.''\<rparr>,
      \<lparr>zone_Id = ''/hostedzone/Z2'', zone_Name = ''example.com.''\<rparr>,
      \<lparr>zone_Id = ''/hostedzone/Z3'', zone_Name = ''other.com.''\<rparr>]"

definition backup_world ::
  "exn option list \<Rightarrow> (string \<times> string \<rightharpoonup> body) \<Rightarrow> (string \<times> string \<times> json) list \<Rightarrow> world" where
  "backup_world s ob pl =
     \<lparr>environ = [''BACKUP_BUCKET'' \<mapsto> ''backups''],
      now = \<lparr>year = 2024, month = 1, day = 2, hour = 3, minute = 4, second = 5\<rparr>,
      HostedZones = scenario_zones,
      ResourceRecordSets = (\<lambda>z. [[record_SOA, record_NS], [record_A]]),
      script = s,
      objects = ob,
      put_log = pl,
      change_log = []\<rparr>"

definition AccessDenied :: exn where
  "AccessDenied = ClientError ''AccessDenied'' ''Access Denied'' ''GetObject''"

text \<open>A failure of the SDK that is not a \<open>ClientError\<close>: botocore's
  \<open>EndpointConnectionError\<close>.\<close>

definition ConnectionLost :: exn where
  "ConnectionLost =
     BotoCoreError (''Could not connect to the endpoint URL: '' @ [CHR 0x22] @
                    ''https://route53.amazonaws.com/2013-04-01/hostedzone/Z9/rrset/'' @ [CHR 0x22])"

section \<open>Properties\<close>

subsection \<open>Errors at the top level\<close>

text \<open>
  C6: every error of a backup or restore run is caught at the top level and turned into a
  failure response. With \<open>BACKUP_BUCKET\<close> unset, both backup handlers return the 500
  response, and the restore handler does not: its \<open>except ClientError\<close> lets the
  \<open>KeyError\<close> leave the handler.
\<close>

theorem restore_missing_bucket_crashes:
  "fst (restore_lambda_handler no_config [''backup_key'' \<mapsto> ''k'', ''hosted_zone_id'' \<mapsto> ''Z1''])
     = Crashed (KeyError ''BACKUP_BUCKET'')
   \<and> fst (backup_lambda_handler no_config) = Returned (backup_failed (KeyError ''BACKUP_BUCKET''))
   \<and> fst (multi_backup_lambda_handler no_config) = Returned (backup_failed (KeyError ''BACKUP_BUCKET''))"
  by (simp add: restore_lambda_handler_def restore_try_def no_config_def backup_lambda_handler_def
      backup_try_def multi_backup_lambda_handler_def multi_backup_try_def)

subsection \<open>The restore loop\<close>

lemma change_Ok:
  "change_resource_record_sets z cs w = Ok u w' \<Longrightarrow>
     change_log w' = change_log w @ [(z, cs, None)]"
  by (auto simp: change_resource_record_sets_def request_def split: list.splits option.splits)

lemma change_Raise:
  "change_resource_record_sets z cs w = Raise e w' \<Longrightarrow>
     change_log w' = change_log w @ [(z, cs, Some e)]"
  by (auto simp: change_resource_record_sets_def request_def split: list.splits option.splits)

lemma restore_batches_Ok:
  "restore_batches z fs i w = Ok u w' \<Longrightarrow> i = 100 * m \<Longrightarrow>
     change_log w' =
       change_log w @ map (\<lambda>j. (z, map create_change (take 100 (drop (100 * j) fs)), None))
                          [m..<(length fs + 99) div 100]"
proof (induction z fs i w arbitrary: m rule: restore_batches.induct)
  case (1 z fs i w)
  show ?case
  proof (cases "i < length fs")
    case False
    with 1(2,3) have "w' = w" by (simp add: restore_batches.simps)
    moreover from False 1(3) have "(length fs + 99) div 100 \<le> m" by arith
    ultimately show ?thesis by simp
  next
    case True
    let ?cs = "map create_change (take batch_size (drop i fs))"
    from True 1(2) obtain w1 where
      c: "change_resource_record_sets z ?cs w = Ok () w1" and
      r: "restore_batches z fs (i + batch_size) w1 = Ok u w'"
      by (subst (asm) restore_batches.simps) (auto simp: Let_def split: result.splits)
    have "i + batch_size = 100 * Suc m" using 1(3) by (simp add: batch_size_def)
    from 1(1)[OF True refl refl c r this]
    have "change_log w' = change_log w1 @
        map (\<lambda>j. (z, map create_change (take 100 (drop (100 * j) fs)), None))
          [Suc m..<(length fs + 99) div 100]" .
    moreover from change_Ok[OF c]
    have "change_log w1 = change_log w @ [(z, map create_change (take 100 (drop (100 * m) fs)), None)]"
      by (simp add: batch_size_def 1(3))
    moreover from True 1(3) have "m < (length fs + 99) div 100" by arith
    ultimately show ?thesis by (simp add: upt_conv_Cons)
  qed
qed

lemma restore_batches_Raise:
  "restore_batches z fs i w = Raise e w' \<Longrightarrow> i = 100 * m \<Longrightarrow>
     \<exists>k. m \<le> k \<and> k < (length fs + 99) div 100 \<and>
       change_log w' =
         change_log w @ map (\<lambda>j. (z, map create_change (take 100 (drop (100 * j) fs)), None)) [m..<k]
           @ [(z, map create_change (take 100 (drop (100 * k) fs)), Some e)]"
proof (induction z fs i w arbitrary: m rule: restore_batches.induct)
  case (1 z fs i w)
  show ?case
  proof (cases "i < length fs")
    case False
    with 1(2) show ?thesis by (simp add: restore_batches.simps)
  next
    case True
    let ?cs = "map create_change (take batch_size (drop i fs))"
    from True 1(3) have m: "m < (length fs + 99) div 100" by arith
    show ?thesis
    proof (cases "change_resource_record_sets z ?cs w")
      case (Raise e1 w1)
      with True 1(2) have "e1 = e" "w1 = w'"
        by (subst (asm) restore_batches.simps, simp add: Let_def)+
      with change_Raise Raise
      have "change_log w' = change_log w @ [(z, map create_change (take 100 (drop (100 * m) fs)), Some e)]"
        by (simp add: batch_size_def 1(3))
      with m show ?thesis by (intro exI[of _ m]) simp
    next
      case (Ok u1 w1)
      hence c: "change_resource_record_sets z ?cs w = Ok () w1" by simp
      with True 1(2) have r: "restore_batches z fs (i + batch_size) w1 = Raise e w'"
        by (subst (asm) restore_batches.simps) (simp add: Let_def)
      have "i + batch_size = 100 * Suc m" using 1(3) by (simp add: batch_size_def)
      from 1(1)[OF True refl refl c r this] obtain k where
        k: "Suc m \<le> k" "k < (length fs + 99) div 100"
          "change_log w' = change_log w1 @
            map (\<lambda>j. (z, map create_change (take 100 (drop (100 * j) fs)), None)) [Suc m..<k]
            @ [(z, map create_change (take 100 (drop (100 * k) fs)), Some e)]" by blast
      from change_Ok[OF c]
      have "change_log w1 = change_log w @ [(z, map create_change (take 100 (drop (100 * m) fs)), None)]"
        by (simp add: batch_size_def 1(3))
      with k show ?thesis by (intro exI[of _ k]) (simp add: upt_conv_Cons)
    qed
  qed
qed

lemma get_object_log: "change_log (world_of (get_object b k w)) = change_log w"
  by (simp add: get_object_def request_def split: list.splits option.splits)

lemma get_object_Ok:
  "get_object b k w = Ok x w1 \<Longrightarrow> objects w (b, k) = Some x \<and> change_log w1 = change_log w"
  by (auto simp: get_object_def request_def split: list.splits option.splits)

lemma get_object_Raise:
  "get_object b k w = Raise e w1 \<Longrightarrow> change_log w1 = change_log w"
  by (auto simp: get_object_def request_def split: list.splits option.splits)

lemma restore_try_cases:
  "change_log (world_of (restore_try w event)) = change_log w \<or>
   (\<exists>bucket key z d fs w1.
      environ w ''BACKUP_BUCKET'' = Some bucket \<and> event ''backup_key'' = Some key \<and>
      event ''hosted_zone_id'' = Some z \<and> objects w (bucket, key) = Some (Document d) \<and>
      filtered_records_of d = Inr fs \<and> change_log w1 = change_log w \<and>
      restore_try w event =
        (case restore_batches z fs 0 w1 of
           Raise e w2 \<Rightarrow> Raise e w2
         | Ok u w2 \<Rightarrow> Ok (restore_completed z) w2))"
proof -
  { assume a: "change_log (world_of (restore_try w event)) \<noteq> change_log w"
    from a obtain bucket where b: "environ w ''BACKUP_BUCKET'' = Some bucket"
      by (cases "environ w ''BACKUP_BUCKET''") (auto simp: restore_try_def)
    from a b obtain key where k: "event ''backup_key'' = Some key"
      by (cases "event ''backup_key''") (auto simp: restore_try_def)
    from a b k obtain z where z: "event ''hosted_zone_id'' = Some z"
      by (cases "event ''hosted_zone_id''") (auto simp: restore_try_def)
    from a b k z obtain x w1 where g: "get_object bucket key w = Ok x w1"
      by (cases "get_object bucket key w") (auto simp: restore_try_def dest: get_object_Raise)
    note g' = get_object_Ok[OF g]
    from a b k z g g' obtain d where x: "x = Document d"
      by (cases x) (auto simp: restore_try_def)
    from a b k z g g' x obtain fs where f: "filtered_records_of d = Inr fs"
      by (cases "filtered_records_of d") (auto simp: restore_try_def)
    from b k z g x f have "restore_try w event =
        (case restore_batches z fs 0 w1 of
           Raise e w2 \<Rightarrow> Raise e w2
         | Ok u w2 \<Rightarrow> Ok (restore_completed z) w2)"
      by (simp add: restore_try_def)
    with b k z g' x f have ?thesis by blast }
  thus ?thesis by blast
qed

lemma filter_records_set:
  "filter_records rs = Inr fs \<Longrightarrow> r \<in> set fs \<Longrightarrow>
     r \<in> set rs \<and> (\<exists>t. subscript r ''Type'' = Inr t \<and> t \<noteq> JStr ''NS'' \<and> t \<noteq> JStr ''SOA'')"
proof (induction rs arbitrary: fs)
  case Nil
  then show ?case by simp
next
  case (Cons a rs)
  then show ?case
    by (fastforce split: sum.splits if_splits)
qed

lemma filtered_records_of_Type:
  "filtered_records_of d = Inr fs \<Longrightarrow> r \<in> set fs \<Longrightarrow>
     \<exists>t. subscript r ''Type'' = Inr t \<and> t \<noteq> JStr ''NS'' \<and> t \<noteq> JStr ''SOA''"
  by (auto simp: filtered_records_of_def split: sum.splits dest: filter_records_set)

lemma handler_log:
  "change_log (snd (restore_lambda_handler w event)) = change_log (world_of (restore_try w event))"
  by (cases "restore_try w event") (auto simp: restore_lambda_handler_def)

lemma restore_batches_chunks:
  "\<exists>log. change_log (world_of (restore_batches z fs 0 w)) = change_log w @ log \<and>
     (\<forall>(z', cs, out) \<in> set log. z' = z \<and> (\<exists>j. cs = map create_change (take 100 (drop (100 * j) fs))
         \<and> j < (length fs + 99) div 100))"
proof (cases "restore_batches z fs 0 w")
  case (Raise e w')
  from restore_batches_Raise[OF this, of 0] show ?thesis
    unfolding Raise by (auto simp: atLeast0LessThan) (blast dest: less_trans)+
next
  case (Ok u w')
  from restore_batches_Ok[OF this, of 0] show ?thesis
    unfolding Ok by auto
qed

lemma restore_run_log:
  "\<exists>log. change_log (snd (restore_lambda_handler w event)) = change_log w @ log"
proof -
  from restore_try_cases[of w event] show ?thesis
  proof
    assume "change_log (world_of (restore_try w event)) = change_log w"
    thus ?thesis by (simp add: handler_log)
  next
    assume "\<exists>bucket key z d fs w1.
      environ w ''BACKUP_BUCKET'' = Some bucket \<and> event ''backup_key'' = Some key \<and>
      event ''hosted_zone_id'' = Some z \<and> objects w (bucket, key) = Some (Document d) \<and>
      filtered_records_of d = Inr fs \<and> change_log w1 = change_log w \<and>
      restore_try w event =
        (case restore_batches z fs 0 w1 of
           Raise e w2 \<Rightarrow> Raise e w2
         | Ok u w2 \<Rightarrow> Ok (restore_completed z) w2)"
    then obtain z fs w1 where w1: "change_log w1 = change_log w" and
      r: "restore_try w event =
        (case restore_batches z fs 0 w1 of
           Raise e w2 \<Rightarrow> Raise e w2
         | Ok u w2 \<Rightarrow> Ok (restore_completed z) w2)" by blast
    from r have "change_log (world_of (restore_try w event)) = change_log (world_of (restore_batches z fs 0 w1))"
      by (simp split: result.splits)
    with restore_batches_chunks[of z fs w1] w1 show ?thesis
      by (auto simp: handler_log)
  qed
qed

lemma submitted_log:
  "change_log (snd (restore_lambda_handler w event)) = change_log w @ submitted w event"
  using restore_run_log[of w event] by (auto simp: submitted_def)

lemma submitted_quiet:
  "change_log (world_of (restore_try w event)) = change_log w \<Longrightarrow> submitted w event = []"
  by (simp add: submitted_def handler_log)

lemma restore_try_run:
  assumes "environ w ''BACKUP_BUCKET'' = Some bucket" "event ''backup_key'' = Some key"
    "event ''hosted_zone_id'' = Some z" "get_object bucket key w = Ok (Document d) w1"
    "filtered_records_of d = Inr fs"
  shows "restore_try w event =
        (case restore_batches z fs 0 w1 of
           Raise e w2 \<Rightarrow> Raise e w2
         | Ok u w2 \<Rightarrow> Ok (restore_completed z) w2)"
  using assms by (simp add: restore_try_def)

lemma submitted_run:
  assumes "environ w ''BACKUP_BUCKET'' = Some bucket" "event ''backup_key'' = Some key"
    "event ''hosted_zone_id'' = Some z" "get_object bucket key w = Ok (Document d) w1"
    "filtered_records_of d = Inr fs"
  shows "change_log (world_of (restore_batches z fs 0 w1)) = change_log w @ submitted w event"
proof -
  have "change_log (world_of (restore_try w event)) = change_log (world_of (restore_batches z fs 0 w1))"
    unfolding restore_try_run[OF assms] by (simp split: result.splits)
  with submitted_log[of w event] show ?thesis by (simp add: handler_log)
qed

lemma concat_chunks:
  "concat (map (\<lambda>j. take c (drop (c * j) xs)) [0..<k]) = take (c * k) xs"
proof (induction k)
  case 0
  show ?case by simp
next
  case (Suc k)
  have "take (c * k + c) xs = take (c * k) xs @ take c (drop (c * k) xs)"
    by (rule take_add)
  with Suc show ?case by (simp add: add.commute)
qed

lemma chunk_length:
  "j < (length fs + 99) div 100 \<Longrightarrow>
     1 \<le> length (take 100 (drop (100 * j) fs)) \<and> length (take 100 (drop (100 * j) fs)) \<le> 100"
  by (simp add: min_def) arith

lemma last_chunk_length:
  "length fs mod 100 \<noteq> 0 \<Longrightarrow>
     length (take 100 (drop (100 * (length fs div 100)) fs)) = length fs mod 100"
proof -
  assume "length fs mod 100 \<noteq> 0"
  have "length fs - 100 * (length fs div 100) = length fs mod 100"
    by (simp add: minus_mult_div_eq_mod)
  thus ?thesis by simp
qed

subsection \<open>What restore submits\<close>

text \<open>
  C3: whatever the backup document holds and however the services answer, every change of
  every change request of a restore run is the \<open>CREATE\<close> of a record whose \<open>Type\<close> is
  neither \<open>NS\<close> nor \<open>SOA\<close>.
\<close>

theorem restore_never_submits_NS_SOA:
  "\<forall>(z, changes, out) \<in> set (submitted w event). \<forall>c \<in> set changes.
     \<exists>r t. c = create_change r \<and> subscript r ''Type'' = Inr t \<and>
       t \<noteq> JStr ''NS'' \<and> t \<noteq> JStr ''SOA''"
proof -
  from restore_try_cases[of w event] show ?thesis
  proof
    assume "change_log (world_of (restore_try w event)) = change_log w"
    hence "submitted w event = []" by (rule submitted_quiet)
    thus ?thesis by simp
  next
    assume "\<exists>bucket key z d fs w1.
      environ w ''BACKUP_BUCKET'' = Some bucket \<and> event ''backup_key'' = Some key \<and>
      event ''hosted_zone_id'' = Some z \<and> objects w (bucket, key) = Some (Document d) \<and>
      filtered_records_of d = Inr fs \<and> change_log w1 = change_log w \<and>
      restore_try w event =
        (case restore_batches z fs 0 w1 of
           Raise e w2 \<Rightarrow> Raise e w2
         | Ok u w2 \<Rightarrow> Ok (restore_completed z) w2)"
    then obtain z d fs w1 where f: "filtered_records_of d = Inr fs" and
      w1: "change_log w1 = change_log w" and
      r: "restore_try w event =
        (case restore_batches z fs 0 w1 of
           Raise e w2 \<Rightarrow> Raise e w2
         | Ok u w2 \<Rightarrow> Ok (restore_completed z) w2)" by blast
    from r have "change_log (world_of (restore_try w event)) = change_log (world_of (restore_batches z fs 0 w1))"
      by (simp split: result.splits)
    with restore_batches_chunks[of z fs w1] w1 submitted_log[of w event]
    have "\<forall>(z', cs, out) \<in> set (submitted w event).
        \<exists>j. cs = map create_change (take 100 (drop (100 * j) fs))"
      by (auto simp: handler_log)
    moreover have "\<And>j c. c \<in> set (map create_change (take 100 (drop (100 * j) fs))) \<Longrightarrow>
       \<exists>r t. c = create_change r \<and> subscript r ''Type'' = Inr t \<and>
       t \<noteq> JStr ''NS'' \<and> t \<noteq> JStr ''SOA''"
    proof -
      fix j c assume "c \<in> set (map create_change (take 100 (drop (100 * j) fs)))"
      then obtain r where "c = create_change r" "r \<in> set fs"
        by (auto dest!: in_set_takeD in_set_dropD)
      with filtered_records_of_Type[OF f] show "\<exists>r t. c = create_change r \<and> subscript r ''Type'' = Inr t \<and>
       t \<noteq> JStr ''NS'' \<and> t \<noteq> JStr ''SOA''" by blast
    qed
    ultimately show ?thesis by fast
  qed
qed

theorem restore_never_submits_NS_SOA_witness:
  "(''Z9'', [create_change record_A], None) \<in>
     set (submitted (restore_world (backup_data ''Z1'' ''example.com'' [record_NS, record_A, record_SOA]) [])
            restore_event)
   \<and> (\<exists>r t. create_change record_A = create_change r \<and> subscript r ''Type'' = Inr t \<and>
         t \<noteq> JStr ''NS'' \<and> t \<noteq> JStr ''SOA'')"
proof -
  have s: "submitted (restore_world (backup_data ''Z1'' ''example.com'' [record_NS, record_A, record_SOA]) [])
         restore_event = [(''Z9'', [create_change record_A], None)]"
    by (simp add: submitted_def restore_lambda_handler_def restore_try_def restore_world_def
        restore_event_def get_object_def request_def backup_data_def filtered_records_of_def
        record_A_def record_NS_def record_SOA_def restore_batches.simps batch_size_def
        change_resource_record_sets_def)
  from restore_never_submits_NS_SOA
    [of "restore_world (backup_data ''Z1'' ''example.com'' [record_NS, record_A, record_SOA]) []"
        restore_event]
  show ?thesis unfolding s by simp
qed

lemma filter_records_infra:
  "\<forall>r \<in> set rs. subscript r ''Type'' = Inr (JStr ''NS'') \<or> subscript r ''Type'' = Inr (JStr ''SOA'')
     \<Longrightarrow> filter_records rs = Inr []"
  by (induction rs) auto

lemma restore_batches_Nil: "restore_batches z [] 0 w = Ok () w"
  by (simp add: restore_batches.simps)

text \<open>
  C9: when the document read has a list of records all of type \<open>NS\<close> or \<open>SOA\<close> (an
  empty list among them), the restore run makes no change request and returns the
  response with status 200.
\<close>

theorem restore_nothing_to_restore:
  assumes "environ w ''BACKUP_BUCKET'' = Some bucket"
    and "event ''backup_key'' = Some key"
    and "event ''hosted_zone_id'' = Some z"
    and "get_object bucket key w = Ok (Document d) w1"
    and "subscript d ''records'' = Inr (JArr rs)"
    and "\<forall>r \<in> set rs. subscript r ''Type'' = Inr (JStr ''NS'') \<or>
                       subscript r ''Type'' = Inr (JStr ''SOA'')"
  shows "submitted w event = [] \<and>
         fst (restore_lambda_handler w event) = Returned (restore_completed z) \<and>
         statusCode (restore_completed z) = 200"
proof -
  from assms(5,6) have f: "filtered_records_of d = Inr []"
    by (simp add: filtered_records_of_def filter_records_infra)
  from restore_try_run[OF assms(1-4) f]
  have r: "restore_try w event = Ok (restore_completed z) w1"
    by (simp add: restore_batches_Nil)
  from get_object_Ok[OF assms(4)] have "change_log w1 = change_log w" by simp
  with r have "submitted w event = []"
    by (simp add: submitted_def restore_lambda_handler_def)
  with r show ?thesis
    by (simp add: restore_lambda_handler_def restore_completed_def)
qed

theorem restore_nothing_to_restore_witness:
  "submitted (restore_world (backup_data ''Z1'' ''example.com'' [record_NS, record_SOA]) [None])
      restore_event = [] \<and>
   fst (restore_lambda_handler
          (restore_world (backup_data ''Z1'' ''example.com'' [record_NS, record_SOA]) [None])
          restore_event) = Returned (restore_completed ''Z9'') \<and>
   statusCode (restore_completed ''Z9'') = 200"
proof -
  have "\<forall>r \<in> set [record_NS, record_SOA]. subscript r ''Type'' = Inr (JStr ''NS'') \<or>
                       subscript r ''Type'' = Inr (JStr ''SOA'')"
    by (simp add: record_NS_def record_SOA_def)
  from restore_nothing_to_restore
    [of "restore_world (backup_data ''Z1'' ''example.com'' [record_NS, record_SOA]) [None]"
        "''backups''" restore_event "''k''" "''Z9''"
        "backup_data ''Z1'' ''example.com'' [record_NS, record_SOA]"
        "restore_world (backup_data ''Z1'' ''example.com'' [record_NS, record_SOA]) []"
        "[record_NS, record_SOA]", OF _ _ _ _ _ this]
  show ?thesis
    by (simp add: restore_world_def restore_event_def get_object_def request_def backup_data_def)
qed

subsection \<open>Batches\<close>

lemma chunks_cover: "(n::nat) \<le> 100 * ((n + 99) div 100)"
proof -
  have "n + 99 = 100 * ((n + 99) div 100) + (n + 99) mod 100" by simp
  moreover have "(n + 99) mod 100 < 100" by simp
  ultimately show ?thesis by linarith
qed
lemma chunks_count: "(n::nat) mod 100 \<noteq> 0 \<Longrightarrow> (n + 99) div 100 = Suc (n div 100)"
proof -
  assume m: "n mod 100 \<noteq> 0"
  have n: "n = 100 * (n div 100) + n mod 100" by simp
  have "n mod 100 < 100" by simp
  with m have "(n mod 100 + 99) div 100 = 1" by (simp add: div_nat_eqI)
  moreover have "(n + 99) div 100 = (100 * (n div 100) + (n mod 100 + 99)) div 100"
    by (simp add: add.assoc)
  ultimately show ?thesis by (simp only: div_mult_self4)
qed

lemma restore_success_Ok:
  assumes "environ w ''BACKUP_BUCKET'' = Some bucket" "event ''backup_key'' = Some key"
    "event ''hosted_zone_id'' = Some z" "get_object bucket key w = Ok (Document d) w1"
    "filtered_records_of d = Inr fs"
    "fst (restore_lambda_handler w event) = Returned r" "statusCode r = 200"
  shows "\<exists>w2. restore_batches z fs 0 w1 = Ok () w2"
proof (cases "restore_batches z fs 0 w1")
  case (Raise e w2)
  with restore_try_run[OF assms(1-5)] have "restore_try w event = Raise e w2" by simp
  with assms(6,7) show ?thesis
    by (auto simp: restore_lambda_handler_def restore_failed_def split: if_splits)
next
  case (Ok u w2)
  thus ?thesis by simp
qed

lemma filter_records_replicate:
  "subscript r ''Type'' = Inr t \<Longrightarrow> t \<noteq> JStr ''NS'' \<Longrightarrow> t \<noteq> JStr ''SOA'' \<Longrightarrow>
     filter_records (replicate n r) = Inr (replicate n r)"
  by (induction n) auto

lemma filtered_doc250: "filtered_records_of doc250 = Inr (replicate 250 record_A)"
proof -
  have "filter_records (replicate 250 record_A) = Inr (replicate 250 record_A)"
    by (rule filter_records_replicate[of _ "JStr ''A''"]) (simp_all add: record_A_def)
  thus ?thesis
    by (simp add: filtered_records_of_def doc250_def backup_data_def record_NS_def record_SOA_def)
qed

lemma change_request_Ok:
  "change_resource_record_sets z cs (restore_world d [] \<lparr>change_log := l\<rparr>) =
     Ok () (restore_world d [] \<lparr>change_log := l @ [(z, cs, None)]\<rparr>)"
  by (simp add: change_resource_record_sets_def request_def restore_world_def)

lemma restore_doc250:
  "restore_try (restore_world doc250 []) restore_event =
     Ok (restore_completed ''Z9'')
        (restore_world doc250 [] \<lparr>change_log :=
           [(''Z9'', replicate 100 (create_change record_A), None),
            (''Z9'', replicate 100 (create_change record_A), None),
            (''Z9'', replicate 50 (create_change record_A), None)]\<rparr>)"
proof -
  have g: "get_object ''backups'' ''k'' (restore_world doc250 []) =
             Ok (Document doc250) (restore_world doc250 [] \<lparr>change_log := []\<rparr>)"
    by (simp add: get_object_def request_def restore_world_def)
  have "restore_batches ''Z9'' (replicate 250 record_A) 0 (restore_world doc250 [] \<lparr>change_log := []\<rparr>) =
     Ok () (restore_world doc250 [] \<lparr>change_log :=
           [(''Z9'', replicate 100 (create_change record_A), None),
            (''Z9'', replicate 100 (create_change record_A), None),
            (''Z9'', replicate 50 (create_change record_A), None)]\<rparr>)"
    by (simp add: restore_batches.simps batch_size_def change_request_Ok)
  with restore_try_run[of "restore_world doc250 []" "''backups''" restore_event "''k''" "''Z9''",
      OF _ _ _ g filtered_doc250]
  show ?thesis by (simp add: restore_world_def restore_event_def)
qed

text \<open>
  C2: when the document read filters to the \<open>n\<close> records \<open>fs\<close> and the run returns
  status 200, the change requests of the run are the chunks \<open>fs[100 j : 100 j + 100]\<close>
  for \<open>j\<close> from 0, in order, each with the change
  \<open>{'Action': 'CREATE', 'ResourceRecordSet': r}\<close> for each record \<open>r\<close> of the chunk, in the
  order of the chunk: together the changes are one \<open>CREATE\<close> per record of \<open>fs\<close> in the
  order of \<open>fs\<close>, each request has between 1 and 100 changes, and when \<open>n mod 100\<close> is
  not 0 there are \<open>n div 100 + 1\<close> requests, the last with \<open>n mod 100\<close> changes.
\<close>

theorem restore_batches_of_100:
  assumes "environ w ''BACKUP_BUCKET'' = Some bucket"
    and "event ''backup_key'' = Some key"
    and "event ''hosted_zone_id'' = Some z"
    and "get_object bucket key w = Ok (Document d) w1"
    and "filtered_records_of d = Inr fs"
    and "fst (restore_lambda_handler w event) = Returned r"
    and "statusCode r = 200"
  shows "submitted w event =
           map (\<lambda>j. (z, map (\<lambda>r. JObj [(''Action'', JStr ''CREATE''), (''ResourceRecordSet'', r)])
                          (take 100 (drop (100 * j) fs)), None))
               [0..<(length fs + 99) div 100] \<and>
         concat (map (\<lambda>q. fst (snd q)) (submitted w event))
           = map (\<lambda>r. JObj [(''Action'', JStr ''CREATE''), (''ResourceRecordSet'', r)]) fs \<and>
         (\<forall>q \<in> set (submitted w event). 1 \<le> length (fst (snd q)) \<and> length (fst (snd q)) \<le> 100) \<and>
         (length fs mod 100 \<noteq> 0 \<longrightarrow>
            length (submitted w event) = length fs div 100 + 1 \<and>
            length (fst (snd (last (submitted w event)))) = length fs mod 100)"
proof -
  let ?N = "(length fs + 99) div 100"
  let ?ok = "\<lambda>j. (z, map create_change (take 100 (drop (100 * j) fs)), None :: exn option)"
  from restore_success_Ok[OF assms] obtain w2 where ok: "restore_batches z fs 0 w1 = Ok () w2" ..
  from restore_batches_Ok[OF ok, of 0] get_object_Ok[OF assms(4)]
  have "change_log w2 = change_log w @ map ?ok [0..<?N]" by simp
  with submitted_run[OF assms(1-5)] ok
  have s: "submitted w event = map ?ok [0..<?N]" by simp
  have "concat (map (\<lambda>q. fst (snd q)) (map ?ok [0..<?N]))
          = map create_change (concat (map (\<lambda>j. take 100 (drop (100 * j) fs)) [0..<?N]))"
    by (simp add: map_concat comp_def)
  also have "\<dots> = map create_change (take (100 * ?N) fs)"
    by (simp only: concat_chunks)
  also have "take (100 * ?N) fs = fs"
    by (rule take_all) (rule chunks_cover)
  finally have c: "concat (map (\<lambda>q. fst (snd q)) (submitted w event)) = map create_change fs"
    unfolding s .
  have b: "\<forall>q \<in> set (submitted w event). 1 \<le> length (fst (snd q)) \<and> length (fst (snd q)) \<le> 100"
    unfolding s using chunk_length[of _ fs] by auto
  have l: "length fs mod 100 \<noteq> 0 \<longrightarrow>
            length (submitted w event) = length fs div 100 + 1 \<and>
            length (fst (snd (last (submitted w event)))) = length fs mod 100"
  proof
    assume m: "length fs mod 100 \<noteq> 0"
    hence n: "?N = Suc (length fs div 100)" by (rule chunks_count)
    from last_chunk_length[OF m] show "length (submitted w event) = length fs div 100 + 1 \<and>
            length (fst (snd (last (submitted w event)))) = length fs mod 100"
      unfolding s n by simp
  qed
  have cc: "create_change = (\<lambda>r. JObj [(''Action'', JStr ''CREATE''), (''ResourceRecordSet'', r)])"
    by (simp add: create_change_def fun_eq_iff)
  from s c b l show ?thesis unfolding cc by blast
qed

theorem restore_batches_of_100_witness:
  "submitted (restore_world doc250 []) restore_event =
     [(''Z9'', replicate 100 (JObj [(''Action'', JStr ''CREATE''), (''ResourceRecordSet'', record_A)]), None),
      (''Z9'', replicate 100 (JObj [(''Action'', JStr ''CREATE''), (''ResourceRecordSet'', record_A)]), None),
      (''Z9'', replicate 50 (JObj [(''Action'', JStr ''CREATE''), (''ResourceRecordSet'', record_A)]), None)] \<and>
   concat (map (\<lambda>q. fst (snd q)) (submitted (restore_world doc250 []) restore_event)) =
     replicate 250 (JObj [(''Action'', JStr ''CREATE''), (''ResourceRecordSet'', record_A)]) \<and>
   length (submitted (restore_world doc250 []) restore_event) = 3 \<and>
   length (fst (snd (last (submitted (restore_world doc250 []) restore_event)))) = 50"
proof -
  have g: "get_object ''backups'' ''k'' (restore_world doc250 []) =
             Ok (Document doc250) (restore_world doc250 [])"
    by (simp add: get_object_def request_def restore_world_def)
  have h: "fst (restore_lambda_handler (restore_world doc250 []) restore_event) =
             Returned (restore_completed ''Z9'')"
    by (simp add: restore_lambda_handler_def restore_doc250)
  have s: "statusCode (restore_completed ''Z9'') = 200"
    by (simp add: restore_completed_def)
  have u: "[0..<3] = [0, 1, 2]" by (simp add: upt_rec)
  have e: "environ (restore_world doc250 []) ''BACKUP_BUCKET'' = Some ''backups''"
    by (simp add: restore_world_def)
  have k: "restore_event ''backup_key'' = Some ''k''" by (simp add: restore_event_def)
  have z: "restore_event ''hosted_zone_id'' = Some ''Z9''" by (simp add: restore_event_def)
  from restore_batches_of_100 [OF e k z g filtered_doc250 h s]
  show ?thesis
    by (simp add: u replicate_add[symmetric])
qed

subsection \<open>A failing chunk\<close>

text \<open>When a change request of a restore run fails with the exception \<open>e\<close>, it is the
  request of some chunk \<open>k\<close>; the requests of the run are those of the chunks before
  \<open>k\<close>, all accepted and left as they are, then the failed one, and none after it. The
  handler returns the 500 response when \<open>e\<close> is a \<open>ClientError\<close>; any other exception
  leaves it.\<close>

lemma restore_stops_at_failed_chunk:
  assumes "environ w ''BACKUP_BUCKET'' = Some bucket"
    and "event ''backup_key'' = Some key"
    and "event ''hosted_zone_id'' = Some z"
    and "get_object bucket key w = Ok (Document d) w1"
    and "filtered_records_of d = Inr fs"
    and "(z', cs, Some e) \<in> set (submitted w event)"
  shows "\<exists>k < (length fs + 99) div 100.
           submitted w event =
             map (\<lambda>j. (z, map create_change (take 100 (drop (100 * j) fs)), None)) [0..<k]
             @ [(z, map create_change (take 100 (drop (100 * k) fs)), Some e)] \<and>
           fst (restore_lambda_handler w event) =
             (if is_ClientError e
              then Returned \<lparr>statusCode = 500,
                     response_body = JObj [(''message'', JStr ''Restore operation failed''),
                                           (''error'', JStr (str_exn e))]\<rparr>
              else Crashed e)"
proof (cases "restore_batches z fs 0 w1")
  case (Ok u w2)
  from restore_batches_Ok[OF Ok, of 0] get_object_Ok[OF assms(4)] submitted_run[OF assms(1-5)] Ok
  have "submitted w event =
      map (\<lambda>j. (z, map create_change (take 100 (drop (100 * j) fs)), None))
        [0..<(length fs + 99) div 100]" by simp
  with assms(6) show ?thesis by auto
next
  case (Raise e2 w2)
  from restore_batches_Raise[OF Raise, of 0] obtain k where
    k: "k < (length fs + 99) div 100" and
    l: "change_log w2 = change_log w1 @
          map (\<lambda>j. (z, map create_change (take 100 (drop (100 * j) fs)), None)) [0..<k]
          @ [(z, map create_change (take 100 (drop (100 * k) fs)), Some e2)]" by auto
  from l get_object_Ok[OF assms(4)] submitted_run[OF assms(1-5)] Raise
  have s: "submitted w event =
          map (\<lambda>j. (z, map create_change (take 100 (drop (100 * j) fs)), None)) [0..<k]
          @ [(z, map create_change (take 100 (drop (100 * k) fs)), Some e2)]" by simp
  with assms(6) have e: "e2 = e" by auto
  from restore_try_run[OF assms(1-5)] Raise have "restore_try w event = Raise e2 w2" by simp
  hence "fst (restore_lambda_handler w event) =
             (if is_ClientError e2 then Returned (restore_failed e2) else Crashed e2)"
    by (simp add: restore_lambda_handler_def)
  with k s e show ?thesis unfolding restore_failed_def by blast
qed


lemma Throttling_ClientError: "is_ClientError Throttling"
  by (simp add: Throttling_def)

lemma restore_world_log: "change_log (restore_world d s) = []"
  by (simp add: restore_world_def)

lemma change_request_scripted:
  "change_resource_record_sets z cs (restore_world d (f # s) \<lparr>change_log := l\<rparr>) =
     (case f of
        None \<Rightarrow> Ok () (restore_world d s \<lparr>change_log := l @ [(z, cs, None)]\<rparr>)
      | Some e \<Rightarrow> Raise e (restore_world d s \<lparr>change_log := l @ [(z, cs, Some e)]\<rparr>))"
  by (simp add: change_resource_record_sets_def request_def restore_world_def split: option.splits)

lemma restore_doc250_failed:
  "restore_try (restore_world doc250 [None, None, Some e]) restore_event =
     Raise e
        (restore_world doc250 [] \<lparr>change_log :=
           [(''Z9'', replicate 100 (create_change record_A), None),
            (''Z9'', replicate 100 (create_change record_A), Some e)]\<rparr>)"
proof -
  have g: "get_object ''backups'' ''k'' (restore_world doc250 [None, None, Some e]) =
             Ok (Document doc250) (restore_world doc250 [None, Some e] \<lparr>change_log := []\<rparr>)"
    by (simp add: get_object_def request_def restore_world_def)
  have "restore_batches ''Z9'' (replicate 250 record_A) 0
          (restore_world doc250 [None, Some e] \<lparr>change_log := []\<rparr>) =
     Raise e (restore_world doc250 [] \<lparr>change_log :=
           [(''Z9'', replicate 100 (create_change record_A), None),
            (''Z9'', replicate 100 (create_change record_A), Some e)]\<rparr>)"
    by (simp add: restore_batches.simps batch_size_def change_request_scripted)
  with restore_try_run[of "restore_world doc250 [None, None, Some e]" "''backups''"
      restore_event "''k''" "''Z9''", OF _ _ _ g filtered_doc250]
  show ?thesis by (simp add: restore_world_def restore_event_def)
qed

text \<open>
  C5: when the submission of a chunk fails, the chunks before it stay applied, no later
  chunk is attempted and the run reports one failure to the caller. Restoring 250
  records, with the connection lost on the second chunk: the first change request is
  accepted, the second fails and there is no third, so far as the claim says; but the
  exception is not a \<open>ClientError\<close>, \<open>except ClientError\<close> on line 52 does not catch it
  and the handler returns nothing. When the second chunk is throttled instead, which is a
  \<open>ClientError\<close>, the same requests are made and the handler returns the 500 response
  with the error text.
\<close>

theorem restore_chunk_failure_crashes:
  "submitted (restore_world doc250 [None, None, Some ConnectionLost]) restore_event =
     [(''Z9'', replicate 100 (JObj [(''Action'', JStr ''CREATE''), (''ResourceRecordSet'', record_A)]),
       None),
      (''Z9'', replicate 100 (JObj [(''Action'', JStr ''CREATE''), (''ResourceRecordSet'', record_A)]),
       Some ConnectionLost)] \<and>
   fst (restore_lambda_handler (restore_world doc250 [None, None, Some ConnectionLost]) restore_event)
     = Crashed ConnectionLost \<and>
   submitted (restore_world doc250 [None, None, Some Throttling]) restore_event =
     [(''Z9'', replicate 100 (JObj [(''Action'', JStr ''CREATE''), (''ResourceRecordSet'', record_A)]),
       None),
      (''Z9'', replicate 100 (JObj [(''Action'', JStr ''CREATE''), (''ResourceRecordSet'', record_A)]),
       Some Throttling)] \<and>
   fst (restore_lambda_handler (restore_world doc250 [None, None, Some Throttling]) restore_event)
     = Returned \<lparr>statusCode = 500,
         response_body =
           JObj [(''message'', JStr ''Restore operation failed''),
                 (''error'', JStr ''An error occurred (Throttling) when calling the ChangeResourceRecordSets operation: Rate exceeded'')]\<rparr>"
proof -
  have c: "\<not> is_ClientError ConnectionLost" by (simp add: ConnectionLost_def)
  have t: "str_exn Throttling
      = ''An error occurred (Throttling) when calling the ChangeResourceRecordSets operation: Rate exceeded''"
    by (simp add: Throttling_def)
  show ?thesis
    by (simp add: submitted_def restore_lambda_handler_def restore_doc250_failed restore_world_log
        Throttling_ClientError c restore_failed_def t create_change_def)
qed

subsection \<open>What restore reads of the document\<close>

lemma change_request_objects:
  "change_resource_record_sets z cs (w\<lparr>objects := ob\<rparr>) =
     (case change_resource_record_sets z cs w of
        Raise e w' \<Rightarrow> Raise e (w'\<lparr>objects := ob\<rparr>)
      | Ok u w' \<Rightarrow> Ok u (w'\<lparr>objects := ob\<rparr>))"
  by (simp add: change_resource_record_sets_def request_def split: list.splits option.splits)

lemma restore_batches_objects:
  "restore_batches z fs i (w\<lparr>objects := ob\<rparr>) =
     (case restore_batches z fs i w of
        Raise e w' \<Rightarrow> Raise e (w'\<lparr>objects := ob\<rparr>)
      | Ok u w' \<Rightarrow> Ok u (w'\<lparr>objects := ob\<rparr>))"
proof (induction z fs i w rule: restore_batches.induct)
  case (1 z fs i w)
  show ?case
  proof (cases "i < length fs")
    case False
    thus ?thesis by (simp add: restore_batches.simps)
  next
    case True
    let ?cs = "map create_change (take batch_size (drop i fs))"
    show ?thesis
    proof (cases "change_resource_record_sets z ?cs w")
      case (Raise e w')
      with True show ?thesis
        by (simp add: restore_batches.simps[of z fs i] change_request_objects)
    next
      case (Ok u w')
      hence c: "change_resource_record_sets z ?cs w = Ok () w'" by simp
      from 1[OF True refl refl c] True c show ?thesis
        by (simp add: restore_batches.simps[of z fs i] change_request_objects)
    qed
  qed
qed

lemma get_object_objects:
  "objects w (bucket, key) = Some b1 \<Longrightarrow>
   get_object bucket key (w\<lparr>objects := (objects w)((bucket, key) \<mapsto> b2)\<rparr>) =
     (case get_object bucket key w of
        Raise e w' \<Rightarrow> Raise e (w'\<lparr>objects := (objects w)((bucket, key) \<mapsto> b2)\<rparr>)
      | Ok u w' \<Rightarrow> Ok b2 (w'\<lparr>objects := (objects w)((bucket, key) \<mapsto> b2)\<rparr>))"
  by (simp add: get_object_def request_def split: list.splits option.splits)

lemma filtered_records_of_cong:
  "subscript d1 ''records'' = subscript d2 ''records'' \<Longrightarrow>
     filtered_records_of d1 = filtered_records_of d2"
  by (simp add: filtered_records_of_def)

lemma restore_try_objects:
  assumes "environ w ''BACKUP_BUCKET'' = Some bucket"
    and "event ''backup_key'' = Some key"
    and "objects w (bucket, key) = Some (Document d1)"
    and "subscript d1 ''records'' = subscript d2 ''records''"
  shows "restore_try (w\<lparr>objects := (objects w)((bucket, key) \<mapsto> Document d2)\<rparr>) event =
     (case restore_try w event of
        Raise e w' \<Rightarrow> Raise e (w'\<lparr>objects := (objects w)((bucket, key) \<mapsto> Document d2)\<rparr>)
      | Ok r w' \<Rightarrow> Ok r (w'\<lparr>objects := (objects w)((bucket, key) \<mapsto> Document d2)\<rparr>))"
proof (cases "event ''hosted_zone_id''")
  case None
  with assms(1,2) show ?thesis by (simp add: restore_try_def)
next
  case (Some z)
  show ?thesis
  proof (cases "get_object bucket key w")
    case (Raise e w')
    with assms(1,2) Some get_object_objects[OF assms(3), of "Document d2"] show ?thesis
      by (simp add: restore_try_def)
  next
    case (Ok b w')
    with get_object_Ok[OF Ok] assms(3) have g: "get_object bucket key w = Ok (Document d1) w'"
      by simp
    have ow: "objects w' = objects w" using g
      by (auto simp: get_object_def request_def split: list.splits option.splits)
    from g get_object_objects[OF assms(3), of "Document d2"]
    have g2: "get_object bucket key (w\<lparr>objects := (objects w)((bucket, key) \<mapsto> Document d2)\<rparr>) =
            Ok (Document d2) (w'\<lparr>objects := (objects w)((bucket, key) \<mapsto> Document d2)\<rparr>)"
      by simp
    show ?thesis
    proof (cases "filtered_records_of d1")
      case (Inl e)
      with filtered_records_of_cong[OF assms(4)] have "filtered_records_of d2 = Inl e" by simp
      with Inl assms(1,2) Some g g2 show ?thesis by (simp add: restore_try_def)
    next
      case (Inr fs)
      with filtered_records_of_cong[OF assms(4)] have "filtered_records_of d2 = Inr fs" by simp
      with Inr assms(1,2) Some g g2 show ?thesis
        by (simp add: restore_try_def restore_batches_objects split: result.splits)
    qed
  qed
qed

lemma submitted_shape:
  "\<forall>q \<in> set (submitted w event).
     event ''hosted_zone_id'' = Some (fst q) \<and> 1 \<le> length (fst (snd q)) \<and> length (fst (snd q)) \<le> 100"
proof -
  from restore_try_cases[of w event] show ?thesis
  proof
    assume "change_log (world_of (restore_try w event)) = change_log w"
    hence "submitted w event = []" by (rule submitted_quiet)
    thus ?thesis by simp
  next
    assume "\<exists>bucket key z d fs w1.
      environ w ''BACKUP_BUCKET'' = Some bucket \<and> event ''backup_key'' = Some key \<and>
      event ''hosted_zone_id'' = Some z \<and> objects w (bucket, key) = Some (Document d) \<and>
      filtered_records_of d = Inr fs \<and> change_log w1 = change_log w \<and>
      restore_try w event =
        (case restore_batches z fs 0 w1 of
           Raise e w2 \<Rightarrow> Raise e w2
         | Ok u w2 \<Rightarrow> Ok (restore_completed z) w2)"
    then obtain z fs w1 where z: "event ''hosted_zone_id'' = Some z" and
      w1: "change_log w1 = change_log w" and
      r: "restore_try w event =
        (case restore_batches z fs 0 w1 of
           Raise e w2 \<Rightarrow> Raise e w2
         | Ok u w2 \<Rightarrow> Ok (restore_completed z) w2)" by blast
    from r have "change_log (world_of (restore_try w event)) = change_log (world_of (restore_batches z fs 0 w1))"
      by (simp split: result.splits)
    with restore_batches_chunks[of z fs w1] w1 submitted_log[of w event]
    have "\<forall>(z', cs, out) \<in> set (submitted w event). z' = z \<and>
        (\<exists>j. cs = map create_change (take 100 (drop (100 * j) fs)) \<and> j < (length fs + 99) div 100)"
      by (auto simp: handler_log)
    with z chunk_length[of _ fs] show ?thesis by fastforce
  qed
qed

text \<open>
  C10: replacing the backup document by one with the same \<open>records\<close> field, whatever
  else it holds, changes neither the change requests of the restore run nor its outcome;
  and every change request of a run goes to the zone named by the event and holds
  between 1 and 100 changes.
\<close>

theorem restore_depends_on_records_only:
  assumes "environ w ''BACKUP_BUCKET'' = Some bucket"
    and "event ''backup_key'' = Some key"
    and "objects w (bucket, key) = Some (Document d1)"
    and "subscript d1 ''records'' = subscript d2 ''records''"
  shows "submitted (w\<lparr>objects := (objects w)((bucket, key) \<mapsto> Document d2)\<rparr>) event
           = submitted w event \<and>
         fst (restore_lambda_handler (w\<lparr>objects := (objects w)((bucket, key) \<mapsto> Document d2)\<rparr>) event)
           = fst (restore_lambda_handler w event) \<and>
         (\<forall>q \<in> set (submitted w event).
            event ''hosted_zone_id'' = Some (fst q) \<and>
            1 \<le> length (fst (snd q)) \<and> length (fst (snd q)) \<le> 100)"
proof -
  from restore_try_objects[where event=event, OF assms]
  have "submitted (w\<lparr>objects := (objects w)((bucket, key) \<mapsto> Document d2)\<rparr>) event
           = submitted w event \<and>
        fst (restore_lambda_handler (w\<lparr>objects := (objects w)((bucket, key) \<mapsto> Document d2)\<rparr>) event)
           = fst (restore_lambda_handler w event)"
    by (cases "restore_try w event") (simp_all add: submitted_def restore_lambda_handler_def)
  with submitted_shape[of w event] show ?thesis by blast
qed

theorem restore_depends_on_records_only_witness:
  "submitted (restore_world (backup_data ''Z1'' ''example.com'' [record_NS, record_A]) []
                \<lparr>objects := (objects (restore_world (backup_data ''Z1'' ''example.com'' [record_NS, record_A]) []))
                   ((''backups'', ''k'') \<mapsto> Document (multi_backup_data ''Z2'' ''other.org'' [record_NS, record_A]))\<rparr>)
      restore_event
     = submitted (restore_world (backup_data ''Z1'' ''example.com'' [record_NS, record_A]) []) restore_event \<and>
   submitted (restore_world (backup_data ''Z1'' ''example.com'' [record_NS, record_A]) []) restore_event
     = [(''Z9'', [create_change record_A], None)]"
proof -
  have s: "submitted (restore_world (backup_data ''Z1'' ''example.com'' [record_NS, record_A]) []) restore_event
     = [(''Z9'', [create_change record_A], None)]"
    by (simp add: submitted_def restore_lambda_handler_def restore_try_def restore_world_def
        restore_event_def get_object_def request_def backup_data_def filtered_records_of_def
        record_A_def record_NS_def restore_batches.simps batch_size_def
        change_resource_record_sets_def)
  have e: "environ (restore_world (backup_data ''Z1'' ''example.com'' [record_NS, record_A]) []) ''BACKUP_BUCKET''
      = Some ''backups''"
    by (simp add: restore_world_def)
  have k: "restore_event ''backup_key'' = Some ''k''" by (simp add: restore_event_def)
  have ob: "objects (restore_world (backup_data ''Z1'' ''example.com'' [record_NS, record_A]) []) (''backups'', ''k'')
      = Some (Document (backup_data ''Z1'' ''example.com'' [record_NS, record_A]))"
    by (simp add: restore_world_def)
  have r: "subscript (backup_data ''Z1'' ''example.com'' [record_NS, record_A]) ''records''
      = subscript (multi_backup_data ''Z2'' ''other.org'' [record_NS, record_A]) ''records''"
    by (simp add: backup_data_def multi_backup_data_def)
  from restore_depends_on_records_only[where event=restore_event, OF e k ob r] s
  show ?thesis by simp
qed

subsection \<open>The summary document\<close>

lemma multi_backup_zones_append:
  "multi_backup_zones b d (xs @ ys) cnt w =
     (case multi_backup_zones b d xs cnt w of
        Raise e w' \<Rightarrow> Raise e w'
      | Ok cnt' w' \<Rightarrow> multi_backup_zones b d ys cnt' w')"
  by (induction xs arbitrary: cnt w) (auto split: result.splits)

lemma read_summary_cases:
  "read_summary b k entry w =
     (case get_object b k w of
        Ok (Document (JArr xs)) w1 \<Rightarrow> Ok (JArr (xs @ [entry])) w1
      | Ok (Document v) w1 \<Rightarrow> Ok (JArr [v, entry]) w1
      | Ok (Malformed msg) w1 \<Rightarrow> Raise (ValueError msg) w1
      | Raise e w1 \<Rightarrow>
          if error_code e = Some ''NoSuchKey'' then Ok (JArr [entry]) w1 else Raise e w1)"
  unfolding read_summary_def
  by (auto split: result.splits body.splits json.splits elim: error_code.elims)

text \<open>
  C4: the summary written by lines 80 to 103. When the read reports \<open>NoSuchKey\<close> the
  value written is the list of the current entry alone; when the read gives a list, the
  entry is appended to it; when it gives a value that is not a list, the value written
  is the list of that value and the entry. Any other failure of the read is raised again
  and nothing is written; in a run that has come to that read (the zones before
  processed, the records of this zone fetched and its document written, its name counted
  more than once) the handler ends there with the 500 response carrying that error, in
  the world the failed read left.
\<close>

theorem summary_merge_rule:
  "(get_object b k w = Raise e w1 \<and> error_code e = Some ''NoSuchKey'' \<longrightarrow>
      update_summary b k entry w = put_object b k (JArr [entry]) w1) \<and>
   (get_object b k w = Ok (Document (JArr xs)) w1 \<longrightarrow>
      update_summary b k entry w = put_object b k (JArr (xs @ [entry])) w1) \<and>
   (get_object b k w = Ok (Document v) w1 \<and> \<not> isinstance_list v \<longrightarrow>
      update_summary b k entry w = put_object b k (JArr [v, entry]) w1) \<and>
   (get_object b k w = Raise e w1 \<and> error_code e \<noteq> Some ''NoSuchKey'' \<longrightarrow>
      update_summary b k entry w = Raise e w1 \<and>
      (environ w0 ''BACKUP_BUCKET'' = Some b \<and>
       list_hosted_zones w0 = Ok (pre @ zone # zones) wl \<and>
       d = strftime (now wl) ''%Y-%m-%d_%H:%M:%S'' \<and>
       multi_backup_zones b d pre Map.empty wl = Ok cnt wz \<and>
       paginate (ResourceRecordSets wz (zone_id_of zone)) [] wz = Ok records wp \<and>
       put_object b (multi_backup_file_key d (zone_name_of zone) (zone_id_of zone))
         (multi_backup_data (zone_id_of zone) (zone_name_of zone) records) wp = Ok () w \<and>
       (\<exists>n > 1. count_zone_name cnt (zone_name_of zone) (zone_name_of zone) = Some n) \<and>
       k = summary_file_key d (zone_name_of zone) \<and>
       entry = summary_data (zone_name_of zone) (zone_id_of zone) records
                 (multi_backup_file_key d (zone_name_of zone) (zone_id_of zone)) \<longrightarrow>
       multi_backup_lambda_handler w0 = (Returned (backup_failed e), w1)))"
proof (intro conjI impI)
  assume "get_object b k w = Raise e w1 \<and> error_code e = Some ''NoSuchKey''"
  thus "update_summary b k entry w = put_object b k (JArr [entry]) w1"
    by (simp add: update_summary_def read_summary_cases)
next
  assume "get_object b k w = Ok (Document (JArr xs)) w1"
  thus "update_summary b k entry w = put_object b k (JArr (xs @ [entry])) w1"
    by (simp add: update_summary_def read_summary_cases)
next
  assume "get_object b k w = Ok (Document v) w1 \<and> \<not> isinstance_list v"
  thus "update_summary b k entry w = put_object b k (JArr [v, entry]) w1"
    by (cases v) (simp_all add: update_summary_def read_summary_cases)
next
  assume a: "get_object b k w = Raise e w1 \<and> error_code e \<noteq> Some ''NoSuchKey''"
  thus u: "update_summary b k entry w = Raise e w1"
    by (simp add: update_summary_def read_summary_cases)
  assume r: "environ w0 ''BACKUP_BUCKET'' = Some b \<and>
       list_hosted_zones w0 = Ok (pre @ zone # zones) wl \<and>
       d = strftime (now wl) ''%Y-%m-%d_%H:%M:%S'' \<and>
       multi_backup_zones b d pre Map.empty wl = Ok cnt wz \<and>
       paginate (ResourceRecordSets wz (zone_id_of zone)) [] wz = Ok records wp \<and>
       put_object b (multi_backup_file_key d (zone_name_of zone) (zone_id_of zone))
         (multi_backup_data (zone_id_of zone) (zone_name_of zone) records) wp = Ok () w \<and>
       (\<exists>n > 1. count_zone_name cnt (zone_name_of zone) (zone_name_of zone) = Some n) \<and>
       k = summary_file_key d (zone_name_of zone) \<and>
       entry = summary_data (zone_name_of zone) (zone_id_of zone) records
                 (multi_backup_file_key d (zone_name_of zone) (zone_id_of zone))"
  hence r1: "environ w0 ''BACKUP_BUCKET'' = Some b"
    and r2: "list_hosted_zones w0 = Ok (pre @ zone # zones) wl"
    and r3: "d = strftime (now wl) ''%Y-%m-%d_%H:%M:%S''"
    and r4: "multi_backup_zones b d pre Map.empty wl = Ok cnt wz"
    and r5: "paginate (ResourceRecordSets wz (zone_id_of zone)) [] wz = Ok records wp"
    and r6: "put_object b (multi_backup_file_key d (zone_name_of zone) (zone_id_of zone))
         (multi_backup_data (zone_id_of zone) (zone_name_of zone) records) wp = Ok () w"
    and r7: "\<exists>n > 1. count_zone_name cnt (zone_name_of zone) (zone_name_of zone) = Some n"
    and r8: "k = summary_file_key d (zone_name_of zone)"
    and r9: "entry = summary_data (zone_name_of zone) (zone_id_of zone) records
                 (multi_backup_file_key d (zone_name_of zone) (zone_id_of zone))"
    by blast+
  from r7 obtain n where n: "n > 1" "count_zone_name cnt (zone_name_of zone) (zone_name_of zone) = Some n"
    by blast
  from u r8 r9 have "update_summary b (summary_file_key d (zone_name_of zone))
      (summary_data (zone_name_of zone) (zone_id_of zone) records
                 (multi_backup_file_key d (zone_name_of zone) (zone_id_of zone))) w = Raise e w1"
    by simp
  with r5 r6 n have "multi_backup_zone b d zone cnt wz = Raise e w1"
    by (simp add: multi_backup_zone_def Let_def)
  with r4 have "multi_backup_zones b d (pre @ zone # zones) Map.empty wl = Raise e w1"
    by (simp add: multi_backup_zones_append)
  hence "multi_backup_zones b (strftime (now wl) ''%Y-%m-%d_%H:%M:%S'') (pre @ zone # zones) Map.empty wl
      = Raise e w1" unfolding r3 .
  with r1 r2 show "multi_backup_lambda_handler w0 = (Returned (backup_failed e), w1)"
    by (simp add: multi_backup_lambda_handler_def multi_backup_try_def Let_def del: strftime.simps)
qed

theorem summary_merge_rule_witness:
  "update_summary ''backups'' ''other'' record_A (restore_world JNull [])
     = put_object ''backups'' ''other'' (JArr [record_A]) (restore_world JNull []) \<and>
   update_summary ''backups'' ''k'' record_A (restore_world (JArr [record_NS]) [])
     = put_object ''backups'' ''k'' (JArr [record_NS, record_A]) (restore_world (JArr [record_NS]) []) \<and>
   update_summary ''backups'' ''k'' record_A (restore_world record_NS [])
     = put_object ''backups'' ''k'' (JArr [record_NS, record_A]) (restore_world record_NS []) \<and>
   fst (multi_backup_lambda_handler (backup_world [None, None, None, None, None, None, None, Some AccessDenied, None]
             Map.empty []))
     = Returned (backup_failed AccessDenied) \<and>
   script (snd (multi_backup_lambda_handler
                  (backup_world [None, None, None, None, None, None, None, Some AccessDenied, None]
             Map.empty [])))
     = [None]"
proof -
  let ?date = "''2024-01-02_03:04:05''"
  let ?rs = "[record_SOA, record_NS, record_A]"
  let ?ka = "multi_backup_file_key ?date ''example.com'' ''Z1''"
  let ?kb = "multi_backup_file_key ?date ''example.com'' ''Z2''"
  let ?da = "multi_backup_data ''Z1'' ''example.com'' ?rs"
  let ?db = "multi_backup_data ''Z2'' ''example.com'' ?rs"
  let ?oba = "[(''backups'', ?ka) \<mapsto> Document ?da]"
  let ?obb = "[(''backups'', ?ka) \<mapsto> Document ?da, (''backups'', ?kb) \<mapsto> Document ?db]"
  let ?pla = "[(''backups'', ?ka, ?da)]"
  let ?plb = "[(''backups'', ?ka, ?da), (''backups'', ?kb, ?db)]"
  let ?za = "\<lparr>zone_Id = ''/hostedzone/Z1'', zone_Name = ''example.com.''\<rparr>"
  let ?zb = "\<lparr>zone_Id = ''/hostedzone/Z2'', zone_Name = ''example.com.''\<rparr>"
  let ?zc = "\<lparr>zone_Id = ''/hostedzone/Z3'', zone_Name = ''other.com.''\<rparr>"
  let ?wstart = "backup_world [None, None, None, None, None, None, None, Some AccessDenied, None] Map.empty []"
  let ?wlist = "backup_world [None, None, None, None, None, None, Some AccessDenied, None] Map.empty []"
  let ?wzone = "backup_world [None, None, None, Some AccessDenied, None] ?oba ?pla"
  let ?wpages = "backup_world [None, Some AccessDenied, None] ?oba ?pla"
  let ?wput = "backup_world [Some AccessDenied, None] ?obb ?plb"
  let ?wfail = "backup_world [None] ?obb ?plb"
  have id: "zone_id_of ?za = ''Z1''" "zone_id_of ?zb = ''Z2''"
    by (simp_all add: zone_id_of_def)
  have nm: "zone_name_of ?za = ''example.com''" "zone_name_of ?zb = ''example.com''"
    by (simp_all add: zone_name_of_def rstrip_def)
  have c1: "get_object ''backups'' ''other'' (restore_world JNull []) = Raise NoSuchKey (restore_world JNull [])
      \<and> error_code NoSuchKey = Some ''NoSuchKey''"
    by (simp add: get_object_def request_def restore_world_def NoSuchKey_def)
  have c2: "get_object ''backups'' ''k'' (restore_world (JArr [record_NS]) [])
      = Ok (Document (JArr [record_NS])) (restore_world (JArr [record_NS]) [])"
    by (simp add: get_object_def request_def restore_world_def)
  have c3: "get_object ''backups'' ''k'' (restore_world record_NS [])
      = Ok (Document record_NS) (restore_world record_NS []) \<and> \<not> isinstance_list record_NS"
    by (simp add: get_object_def request_def restore_world_def record_NS_def)
  have c4: "get_object ''backups'' (summary_file_key ?date ''example.com'') ?wput = Raise AccessDenied ?wfail
      \<and> error_code AccessDenied \<noteq> Some ''NoSuchKey''"
    by (simp add: get_object_def request_def backup_world_def AccessDenied_def)
  have r1: "environ ?wstart ''BACKUP_BUCKET'' = Some ''backups''"
    by (simp add: backup_world_def)
  have r2: "list_hosted_zones ?wstart = Ok ([?za] @ ?zb # [?zc]) ?wlist"
    by (simp add: list_hosted_zones_def request_def backup_world_def scenario_zones_def)
  have r3: "?date = strftime (now ?wlist) ''%Y-%m-%d_%H:%M:%S''"
    by (simp add: backup_world_def decimal.simps two_digits_def digit_def)
  have r4: "multi_backup_zones ''backups'' ?date [?za] Map.empty ?wlist = Ok [''example.com'' \<mapsto> 1] ?wzone"
    by (simp add: multi_backup_zone_def id nm Let_def backup_world_def request_def put_object_def
        count_zone_name_def)
  have r5: "paginate (ResourceRecordSets ?wzone (zone_id_of ?zb)) [] ?wzone = Ok ?rs ?wpages"
    by (simp add: backup_world_def request_def)
  have r6: "put_object ''backups'' (multi_backup_file_key ?date (zone_name_of ?zb) (zone_id_of ?zb))
         (multi_backup_data (zone_id_of ?zb) (zone_name_of ?zb) ?rs) ?wpages = Ok () ?wput"
    by (simp add: id nm put_object_def request_def backup_world_def)
  have r7: "\<exists>n > 1. count_zone_name [''example.com'' \<mapsto> 1] (zone_name_of ?zb) (zone_name_of ?zb) = Some n"
    by (simp add: nm count_zone_name_def)
  have r8: "summary_file_key ?date ''example.com'' = summary_file_key ?date (zone_name_of ?zb)"
    by (simp add: nm)
  from summary_merge_rule
    [of "''backups''" "''other''" "restore_world JNull []" NoSuchKey "restore_world JNull []" record_A]
    c1
  have w1: "update_summary ''backups'' ''other'' record_A (restore_world JNull [])
     = put_object ''backups'' ''other'' (JArr [record_A]) (restore_world JNull [])" by blast
  from summary_merge_rule
    [of "''backups''" "''k''" "restore_world (JArr [record_NS]) []" _ "restore_world (JArr [record_NS]) []"
        record_A "[record_NS]"]
    c2
  have w2: "update_summary ''backups'' ''k'' record_A (restore_world (JArr [record_NS]) [])
     = put_object ''backups'' ''k'' (JArr [record_NS, record_A]) (restore_world (JArr [record_NS]) [])"
    by simp
  from summary_merge_rule
    [of "''backups''" "''k''" "restore_world record_NS []" _ "restore_world record_NS []"
        record_A _ record_NS]
    c3
  have w3: "update_summary ''backups'' ''k'' record_A (restore_world record_NS [])
     = put_object ''backups'' ''k'' (JArr [record_NS, record_A]) (restore_world record_NS [])"
    by blast
  from summary_merge_rule
    [of "''backups''" "summary_file_key ?date ''example.com''" ?wput AccessDenied ?wfail
        "summary_data (zone_name_of ?zb) (zone_id_of ?zb) ?rs
           (multi_backup_file_key ?date (zone_name_of ?zb) (zone_id_of ?zb))"
        _ _ ?wstart "[?za]" ?zb "[?zc]" ?wlist ?date "[''example.com'' \<mapsto> 1]" ?wzone ?rs ?wpages]
     c4 r1 r2 r3 r4 r5 r6 r7 r8
  have w4: "multi_backup_lambda_handler ?wstart = (Returned (backup_failed AccessDenied), ?wfail)"
    by blast
  have "script ?wfail = [None]" by (simp add: backup_world_def)
  with w1 w2 w3 w4 show ?thesis by simp
qed

subsection \<open>The writes of a backup run\<close>

lemma quiet_refl: "quiet w w"
  by (simp add: quiet_def)

lemma quiet_trans: "quiet w w1 \<Longrightarrow> quiet w1 w2 \<Longrightarrow> quiet w w2"
  by (simp add: quiet_def)

lemma request_quiet: "request w = (f, w') \<Longrightarrow> quiet w w'"
  by (auto simp: request_def quiet_def honest_def split: list.splits)

lemma request_honest:
  "request w = (Some e, w') \<Longrightarrow> honest (script w) \<Longrightarrow> error_code e \<noteq> Some ''NoSuchKey''"
  by (auto simp: request_def honest_def split: list.splits)

lemma paginate_quiet: "quiet w (world_of (paginate pages records w))"
proof (induction pages arbitrary: records w)
  case Nil
  show ?case by (simp add: quiet_refl)
next
  case (Cons page pages)
  obtain f w1 where r: "request w = (f, w1)" by (cases "request w")
  show ?case
  proof (cases f)
    case None
    from quiet_trans[OF request_quiet[OF r] Cons[of w1 "records @ page"]] r None
    show ?thesis by simp
  next
    case (Some e)
    with request_quiet[OF r] r show ?thesis by simp
  qed
qed

lemma paginate_Ok:
  "paginate pages records w = Ok rs w' \<Longrightarrow> rs = records @ concat pages"
proof (induction pages arbitrary: records w)
  case Nil
  thus ?case by simp
next
  case (Cons page pages)
  obtain f w1 where r: "request w = (f, w1)" by (cases "request w")
  with Cons.prems have "paginate pages (records @ page) w1 = Ok rs w'"
    by (cases f) simp_all
  from Cons.IH[OF this] show ?case by simp
qed

lemma get_object_quiet: "quiet w (world_of (get_object b k w))"
proof -
  obtain f w1 where r: "request w = (f, w1)" by (cases "request w")
  with request_quiet[OF r] show ?thesis
    by (simp add: get_object_def split: option.splits)
qed

lemma get_object_read:
  "get_object b k w = Ok x w' \<Longrightarrow> objects w (b, k) = Some x"
  by (auto simp: get_object_def request_def split: list.splits option.splits)

lemma get_object_missing:
  assumes "get_object b k w = Raise e w'" "error_code e = Some ''NoSuchKey''" "honest (script w)"
  shows "objects w (b, k) = None"
proof -
  obtain f w1 where r: "request w = (f, w1)" by (cases "request w")
  from request_quiet[OF r] have o: "objects w1 = objects w" by (simp add: quiet_def)
  show ?thesis
  proof (cases f)
    case None
    with assms(1) r o show ?thesis
      by (simp add: get_object_def split: option.splits)
  next
    case (Some e')
    with assms(1) r have "e' = e" by (simp add: get_object_def)
    with request_honest[of w e' w1] r Some assms(2,3) show ?thesis by simp
  qed
qed

lemma put_object_Raise: "put_object b k v w = Raise e w' \<Longrightarrow> quiet w w'"
proof -
  assume a: "put_object b k v w = Raise e w'"
  obtain f w1 where r: "request w = (f, w1)" by (cases "request w")
  with a request_quiet[OF r] show ?thesis
    by (cases f) (simp_all add: put_object_def)
qed

lemma put_object_Ok:
  assumes "put_object b k v w = Ok u w'"
  shows "environ w' = environ w \<and> now w' = now w \<and> HostedZones w' = HostedZones w \<and>
      ResourceRecordSets w' = ResourceRecordSets w \<and>
      objects w' = (objects w)((b, k) \<mapsto> Document v) \<and>
      put_log w' = put_log w @ [(b, k, v)] \<and> (honest (script w) \<longrightarrow> honest (script w'))"
proof -
  obtain f w1 where r: "request w = (f, w1)" by (cases "request w")
  with assms request_quiet[OF r] show ?thesis
    by (cases f) (auto simp: put_object_def quiet_def)
qed

lemma quiet_wrote: "quiet w w' = wrote w [] w'"
  by (simp add: quiet_def wrote_def store_def)

lemma store_append: "store (ps @ qs) ob = store qs (store ps ob)"
  by (simp add: store_def)

lemma wrote_trans: "wrote w ps w1 \<Longrightarrow> wrote w1 qs w2 \<Longrightarrow> wrote w (ps @ qs) w2"
  by (simp add: wrote_def store_append)

lemma put_object_wrote: "put_object b k v w = Ok u w' \<Longrightarrow> wrote w [(b, k, v)] w'"
  using put_object_Ok[of b k v w u w'] by (simp add: wrote_def store_def)

lemma zone_records_static:
  "ResourceRecordSets w' = ResourceRecordSets w \<Longrightarrow> zone_records w' z = zone_records w z"
  by (simp add: zone_records_def)

lemma backup_zone_Ok:
  assumes "backup_zone b d z w = Ok u w'"
  shows "wrote w [(b, zone_key d z, zone_document w z)] w'"
proof -
  from assms obtain rs w1 where p: "paginate (ResourceRecordSets w (zone_id_of z)) [] w = Ok rs w1"
    and q: "put_object b (backup_file_key d (zone_name_of z)) (backup_data (zone_id_of z) (zone_name_of z) rs) w1
             = Ok u w'"
    by (auto simp: backup_zone_def Let_def split: result.splits)
  from paginate_Ok[OF p] have rs: "rs = zone_records w z" by (simp add: zone_records_def)
  from paginate_quiet[of w "ResourceRecordSets w (zone_id_of z)" "[]"] p
  have "wrote w [] w1" by (simp add: quiet_wrote)
  from wrote_trans[OF this put_object_wrote[OF q]] rs show ?thesis
    by (simp add: zone_key_def zone_document_def)
qed

lemma backup_zone_Raise:
  assumes "backup_zone b d z w = Raise e w'"
  shows "wrote w [] w'"
proof (cases "paginate (ResourceRecordSets w (zone_id_of z)) [] w")
  case (Raise e1 w1)
  with assms have "w1 = w'" by (simp add: backup_zone_def Let_def)
  with paginate_quiet[of w "ResourceRecordSets w (zone_id_of z)" "[]"] Raise
  show ?thesis by (simp add: quiet_wrote)
next
  case (Ok rs w1)
  with assms have "put_object b (backup_file_key d (zone_name_of z))
      (backup_data (zone_id_of z) (zone_name_of z) rs) w1 = Raise e w'"
    by (simp add: backup_zone_def Let_def)
  from put_object_Raise[OF this] paginate_quiet[of w "ResourceRecordSets w (zone_id_of z)" "[]"] Ok
  show ?thesis by (auto simp: quiet_wrote[symmetric] intro: quiet_trans)
qed

lemma wrote_static_document: "wrote w ps w1 \<Longrightarrow> zone_document w1 z = zone_document w z"
  by (simp add: wrote_def zone_document_def zone_records_def)

lemma backup_zones_Ok:
  "backup_zones b d zs w = Ok u w' \<Longrightarrow>
     wrote w (map (\<lambda>z. (b, zone_key d z, zone_document w z)) zs) w'"
proof (induction zs arbitrary: w)
  case Nil
  thus ?case by (simp add: quiet_wrote[symmetric] quiet_refl)
next
  case (Cons z zs)
  from Cons.prems obtain w1 where s: "backup_zone b d z w = Ok () w1"
    and r: "backup_zones b d zs w1 = Ok u w'"
    by (auto split: result.splits)
  note a = backup_zone_Ok[OF s]
  from wrote_trans[OF a Cons.IH[OF r]] wrote_static_document[OF a]
  show ?case by simp
qed

lemma backup_zones_Raise:
  "backup_zones b d zs w = Raise e w' \<Longrightarrow>
     \<exists>k < length zs. wrote w (map (\<lambda>z. (b, zone_key d z, zone_document w z)) (take k zs)) w'"
proof (induction zs arbitrary: w)
  case Nil
  thus ?case by simp
next
  case (Cons z zs)
  show ?case
  proof (cases "backup_zone b d z w")
    case (Raise e1 w1)
    with Cons.prems have "w1 = w'" by simp
    with backup_zone_Raise[of b d z w e1 w1] Raise show ?thesis
      by (intro exI[of _ 0]) simp
  next
    case (Ok u1 w1)
    hence s: "backup_zone b d z w = Ok () w1" by simp
    with Cons.prems have r: "backup_zones b d zs w1 = Raise e w'" by simp
    note a = backup_zone_Ok[OF s]
    from Cons.IH[OF r] obtain k where k: "k < length zs"
      "wrote w1 (map (\<lambda>z. (b, zone_key d z, zone_document w1 z)) (take k zs)) w'" by blast
    from wrote_trans[OF a k(2)] wrote_static_document[OF a] k(1)
    show ?thesis by (intro exI[of _ "Suc k"]) simp
  qed
qed

lemma summary_key_not_backup_key:
  "summary_file_key d n \<noteq> multi_backup_file_key d' n' i"
proof
  assume "summary_file_key d n = multi_backup_file_key d' n' i"
  hence "(d @ ''/'' @ n @ ''/zone_summar'') @ ''y.json''
       = (d' @ ''/'' @ n' @ ''/'' @ i @ ''/route53_backu'') @ ''p.json''"
    by (simp add: summary_file_key_def multi_backup_file_key_def)
  hence "''y.json'' = ''p.json''"
    by (subst (asm) append_eq_append_conv) simp_all
  thus False by simp
qed

lemma summary_key_inj: "summary_file_key d n = summary_file_key d n' \<longleftrightarrow> n = n'"
  by (simp add: summary_file_key_def)

lemma backup_key_inj: "backup_file_key d n = backup_file_key d n' \<longleftrightarrow> n = n'"
  by (simp add: backup_file_key_def)

lemma split_at_first:
  "c \<notin> set a \<Longrightarrow> c \<notin> set a' \<Longrightarrow> a @ c # b = a' @ c # b' \<Longrightarrow> a = a' \<and> b = b'"
proof (induction a arbitrary: a')
  case Nil
  thus ?case by (cases a') auto
next
  case (Cons x a)
  from Cons.prems obtain a1 where a': "a' = x # a1" by (cases a') auto
  with Cons.prems Cons.IH[of a1] show ?case by simp
qed

lemma split_at_last:
  assumes "c \<notin> set ys" "c \<notin> set ys'"
  shows "xs @ c # ys = xs' @ c # ys' \<longleftrightarrow> xs = xs' \<and> ys = ys'"
proof
  assume "xs @ c # ys = xs' @ c # ys'"
  hence "rev (xs @ c # ys) = rev (xs' @ c # ys')" by simp
  hence "rev ys @ c # rev xs = rev ys' @ c # rev xs'" by simp
  with assms split_at_first[of c "rev ys" "rev ys'" "rev xs" "rev xs'"]
  show "xs = xs' \<and> ys = ys'" by simp
qed simp

lemma multi_backup_key_inj:
  assumes "CHR ''/'' \<notin> set i" "CHR ''/'' \<notin> set i'"
  shows "multi_backup_file_key d n i = multi_backup_file_key d n' i' \<longleftrightarrow> n = n' \<and> i = i'"
proof -
  have "multi_backup_file_key d n i = multi_backup_file_key d n' i'
      \<longleftrightarrow> (n @ CHR ''/'' # i) @ ''/route53_backup.json'' = (n' @ CHR ''/'' # i') @ ''/route53_backup.json''"
    by (simp add: multi_backup_file_key_def)
  also have "\<dots> \<longleftrightarrow> n @ CHR ''/'' # i = n' @ CHR ''/'' # i'"
    by (simp only: append_same_eq)
  also have "\<dots> \<longleftrightarrow> n = n' \<and> i = i'"
    by (rule split_at_last[OF assms])
  finally show ?thesis .
qed

text \<open>\<open>split\<close> and \<open>rstrip\<close>.\<close>

lemma split_nonempty: "split c s \<noteq> []"
  by (induction s) auto

lemma split_single: "tl (split c s) = [] \<Longrightarrow> split c s = [s]"
proof (induction s)
  case Nil
  show ?case by simp
next
  case (Cons x s)
  show ?case
  proof (cases "x = c")
    case True
    with Cons.prems split_nonempty[of c s] show ?thesis by simp
  next
    case False
    with Cons.prems have "tl (split c s) = []" by simp
    from Cons.IH[OF this] False show ?thesis by simp
  qed
qed

lemma last_split_Cons:
  "last (split c (x # s)) = (if x \<noteq> c \<and> tl (split c s) = [] then x # s else last (split c s))"
proof (cases "x = c")
  case True
  with split_nonempty[of c s] show ?thesis by simp
next
  case False
  show ?thesis
  proof (cases "tl (split c s) = []")
    case True
    from split_single[OF this] False True show ?thesis by simp
  next
    case F: False
    with split_nonempty[of c s] have "last (tl (split c s)) = last (split c s)"
      by (cases "split c s") simp_all
    with False F show ?thesis by simp
  qed
qed

lemma last_split_no_sep: "c \<notin> set (last (split c s))"
proof (induction s)
  case Nil
  show ?case by simp
next
  case (Cons x s)
  show ?case
  proof (cases "x \<noteq> c \<and> tl (split c s) = []")
    case True
    hence "last (split c (x # s)) = x # s" by (subst last_split_Cons) simp
    moreover from True split_single[of c s] have "last (split c s) = s" by simp
    ultimately show ?thesis using Cons True by auto
  next
    case False
    hence "last (split c (x # s)) = last (split c s)" by (subst last_split_Cons) auto
    with Cons show ?thesis by simp
  qed
qed

lemma last_split_prefix:
  "\<exists>p. s = p @ last (split c s) \<and>
       (if tl (split c s) = [] then p = [] else p \<noteq> [] \<and> last p = c)"
proof (induction s)
  case Nil
  show ?case by simp
next
  case (Cons x s)
  then obtain p where p: "s = p @ last (split c s)"
    "if tl (split c s) = [] then p = [] else p \<noteq> [] \<and> last p = c" by blast
  show ?case
  proof (cases "x = c")
    case True
    hence l: "last (split c (x # s)) = last (split c s)" by (subst last_split_Cons) simp
    from True split_nonempty[of c s] have t: "tl (split c (x # s)) \<noteq> []" by simp
    from p True have "x # s = (x # p) @ last (split c s) \<and> x # p \<noteq> [] \<and> last (x # p) = c"
      by (auto split: if_splits)
    with l t show ?thesis by (intro exI[of _ "x # p"]) (simp only: if_False, simp)
  next
    case False
    hence t: "tl (split c (x # s)) = tl (split c s)" by simp
    show ?thesis
    proof (cases "tl (split c s) = []")
      case True
      with False have "last (split c (x # s)) = x # s" by (subst last_split_Cons) simp
      with t True show ?thesis by (intro exI[of _ "[]"]) (simp only: if_True, simp)
    next
      case F: False
      hence l: "last (split c (x # s)) = last (split c s)" by (subst last_split_Cons) simp
      from p F have "x # s = (x # p) @ last (split c s) \<and> x # p \<noteq> [] \<and> last (x # p) = c"
        by auto
      with l t F show ?thesis by (intro exI[of _ "x # p"]) (simp only: if_False, simp)
    qed
  qed
qed

lemma last_split_suffix:
  "\<exists>p. s = p @ last (split c s) \<and> (p = [] \<or> last p = c)"
  using last_split_prefix[of s c] by (auto split: if_splits)

lemma rstrip_suffix: "\<exists>n. s = rstrip c s @ replicate n c"
proof -
  have "rev s = takeWhile (\<lambda>x. x = c) (rev s) @ dropWhile (\<lambda>x. x = c) (rev s)" by simp
  hence "s = rev (dropWhile (\<lambda>x. x = c) (rev s)) @ rev (takeWhile (\<lambda>x. x = c) (rev s))"
    by (metis rev_append rev_rev_ident)
  moreover have "takeWhile (\<lambda>x. x = c) (rev s) = replicate (length (takeWhile (\<lambda>x. x = c) (rev s))) c"
    by (rule replicate_length_same[symmetric]) (auto dest: set_takeWhileD)
  ultimately have "s = rstrip c s @ replicate (length (takeWhile (\<lambda>x. x = c) (rev s))) c"
    by (metis rstrip_def rev_replicate)
  thus ?thesis ..
qed

lemma rstrip_no_trailing: "rstrip c s = [] \<or> last (rstrip c s) \<noteq> c"
proof (cases "dropWhile (\<lambda>x. x = c) (rev s)")
  case Nil
  thus ?thesis by (simp add: rstrip_def)
next
  case (Cons y ys)
  with hd_dropWhile[of "\<lambda>x. x = c" "rev s"] have "y \<noteq> c" by auto
  with Cons show ?thesis by (simp add: rstrip_def)
qed

lemma zone_keys_differ: "zone_summary_key d z \<noteq> multi_zone_key d z'"
  by (simp add: zone_summary_key_def multi_zone_key_def summary_key_not_backup_key)


lemma read_summary_quiet: "quiet w (world_of (read_summary b k entry w))"
  using get_object_quiet[of w b k]
  by (auto simp: read_summary_def split: result.splits sum.splits json.splits body.splits
      elim!: json_loads.elims)

lemma read_summary_Ok:
  assumes "read_summary b k entry w = Ok m w1" "honest (script w)"
  shows "merge_value (objects w (b, k)) entry = Some m"
proof (cases "get_object b k w")
  case (Raise e w2)
  with assms(1) have c: "error_code e = Some ''NoSuchKey''" and m: "m = JArr [entry]"
    by (auto simp: read_summary_cases split: if_splits)
  from get_object_missing[OF Raise c assms(2)] m show ?thesis by simp
next
  case (Ok x w2)
  from get_object_read[OF Ok] have o: "objects w (b, k) = Some x" .
  show ?thesis
  proof (cases x)
    case Malformed
    with assms(1) Ok show ?thesis by (simp add: read_summary_cases)
  next
    case (Document v)
    with assms(1) Ok o show ?thesis
      by (cases v) (auto simp: read_summary_cases)
  qed
qed

lemma update_summary_Raise: "update_summary b k entry w = Raise e w' \<Longrightarrow> wrote w [] w'"
proof -
  assume a: "update_summary b k entry w = Raise e w'"
  show ?thesis
  proof (cases "read_summary b k entry w")
    case (Raise e1 w1)
    with a read_summary_quiet[of w b k entry] show ?thesis
      by (simp add: update_summary_def quiet_wrote)
  next
    case (Ok m w1)
    with a have "put_object b k m w1 = Raise e w'" by (simp add: update_summary_def)
    from put_object_Raise[OF this] read_summary_quiet[of w b k entry] Ok
    show ?thesis by (auto simp: quiet_wrote[symmetric] intro: quiet_trans)
  qed
qed

lemma update_summary_Ok:
  assumes "update_summary b k entry w = Ok u w'"
  shows "\<exists>m. wrote w [(b, k, m)] w' \<and>
           (honest (script w) \<longrightarrow> merge_value (objects w (b, k)) entry = Some m)"
proof -
  from assms obtain m w1 where r: "read_summary b k entry w = Ok m w1"
    and p: "put_object b k m w1 = Ok u w'"
    by (auto simp: update_summary_def split: result.splits)
  from read_summary_quiet[of w b k entry] r have "wrote w [] w1" by (simp add: quiet_wrote)
  from wrote_trans[OF this put_object_wrote[OF p]] read_summary_Ok[OF r]
  show ?thesis by auto
qed

text \<open>Whether the zone gets a summary entry: its name has been counted before.\<close>

lemma counted_again:
  "(\<exists>n. count_zone_name cnt zn zn = Some n \<and> n > 1) = (\<exists>c \<ge> 1. cnt zn = Some c)"
  by (auto simp: count_zone_name_def split: option.splits)

lemma count_zone_name_Some: "\<exists>n. count_zone_name cnt zn zn = Some n"
  by (simp add: count_zone_name_def split: option.splits)

lemma multi_backup_zone_Ok:
  assumes "multi_backup_zone b d z cnt w = Ok cnt' w'"
  shows "cnt' = count_zone_name cnt (zone_name_of z) \<and>
    (if \<exists>c \<ge> 1. cnt (zone_name_of z) = Some c
     then \<exists>m. wrote w [(b, multi_zone_key d z, multi_zone_document w z),
                       (b, zone_summary_key d z, m)] w' \<and>
              (honest (script w) \<longrightarrow>
                 merge_value (objects w (b, zone_summary_key d z)) (zone_entry w d z) = Some m)
     else wrote w [(b, multi_zone_key d z, multi_zone_document w z)] w')"
proof -
  let ?zn = "zone_name_of z" and ?zi = "zone_id_of z"
  from assms obtain rs w1 where p: "paginate (ResourceRecordSets w ?zi) [] w = Ok rs w1"
    by (cases "paginate (ResourceRecordSets w ?zi) [] w") (auto simp: multi_backup_zone_def Let_def)
  from paginate_Ok[OF p] have rs: "rs = zone_records w z" by (simp add: zone_records_def)
  from paginate_quiet[of w "ResourceRecordSets w ?zi" "[]"] p
  have q1: "wrote w [] w1" by (simp add: quiet_wrote)
  from assms p obtain w2 where
    q: "put_object b (multi_backup_file_key d ?zn ?zi) (multi_backup_data ?zi ?zn rs) w1 = Ok () w2"
    by (cases "put_object b (multi_backup_file_key d ?zn ?zi) (multi_backup_data ?zi ?zn rs) w1")
       (auto simp: multi_backup_zone_def Let_def)
  from wrote_trans[OF q1 put_object_wrote[OF q]] rs
  have q2: "wrote w [(b, multi_zone_key d z, multi_zone_document w z)] w2"
    by (simp add: multi_zone_key_def multi_zone_document_def)
  obtain n where n: "count_zone_name cnt ?zn ?zn = Some n"
    using count_zone_name_Some by blast
  show ?thesis
  proof (cases "n > 1")
    case False
    with assms p q n have e: "cnt' = count_zone_name cnt ?zn" "w' = w2"
      by (simp_all add: multi_backup_zone_def Let_def)
    from False n counted_again[of cnt ?zn] have nc: "\<not> (\<exists>c \<ge> 1. cnt ?zn = Some c)" by auto
    from q2 e show ?thesis by (simp only: nc if_False simp_thms)
  next
    case True
    with n counted_again[of cnt ?zn] have c: "\<exists>c \<ge> 1. cnt ?zn = Some c" by auto
    from True assms p q n rs have u: "update_summary b (zone_summary_key d z) (zone_entry w d z) w2 = Ok () w'"
      and c': "cnt' = count_zone_name cnt ?zn"
      by (auto simp: multi_backup_zone_def Let_def zone_summary_key_def zone_entry_def
          multi_zone_key_def split: result.splits)
    from update_summary_Ok[OF u] obtain m where
      m: "wrote w2 [(b, zone_summary_key d z, m)] w'"
         "honest (script w2) \<longrightarrow> merge_value (objects w2 (b, zone_summary_key d z)) (zone_entry w d z) = Some m"
      by blast
    from q2 have "objects w2 = (objects w)((b, multi_zone_key d z) \<mapsto> Document (multi_zone_document w z))"
      and "honest (script w) \<longrightarrow> honest (script w2)"
      by (simp_all add: wrote_def store_def)
    hence "objects w2 (b, zone_summary_key d z) = objects w (b, zone_summary_key d z)"
      and "honest (script w) \<longrightarrow> honest (script w2)"
      by (simp_all add: zone_keys_differ)
    with m(2) wrote_trans[OF q2 m(1)] have "\<exists>m. wrote w [(b, multi_zone_key d z, multi_zone_document w z),
                       (b, zone_summary_key d z, m)] w' \<and>
              (honest (script w) \<longrightarrow>
                 merge_value (objects w (b, zone_summary_key d z)) (zone_entry w d z) = Some m)"
      by auto
    with c' show ?thesis by (simp only: c if_True simp_thms)
  qed
qed

lemma multi_backup_zone_Raise:
  assumes "multi_backup_zone b d z cnt w = Raise e w'"
  shows "wrote w [] w' \<or> wrote w [(b, multi_zone_key d z, multi_zone_document w z)] w'"
proof -
  let ?zn = "zone_name_of z" and ?zi = "zone_id_of z"
  show ?thesis
  proof (cases "paginate (ResourceRecordSets w ?zi) [] w")
    case (Raise e1 w1)
    with assms have "w1 = w'" by (simp add: multi_backup_zone_def Let_def)
    with paginate_quiet[of w "ResourceRecordSets w ?zi" "[]"] Raise
    show ?thesis by (simp add: quiet_wrote)
  next
    case (Ok rs w1)
    from paginate_Ok[OF Ok] have rs: "rs = zone_records w z" by (simp add: zone_records_def)
    from paginate_quiet[of w "ResourceRecordSets w ?zi" "[]"] Ok
    have q1: "wrote w [] w1" by (simp add: quiet_wrote)
    show ?thesis
    proof (cases "put_object b (multi_backup_file_key d ?zn ?zi) (multi_backup_data ?zi ?zn rs) w1")
      case (Raise e2 w2)
      with assms Ok have "w2 = w'" by (simp add: multi_backup_zone_def Let_def)
      with put_object_Raise[OF Raise] q1 show ?thesis
        by (auto simp: quiet_wrote[symmetric] intro: quiet_trans)
    next
      case (Ok u2 w2)
      hence q: "put_object b (multi_backup_file_key d ?zn ?zi) (multi_backup_data ?zi ?zn rs) w1 = Ok () w2"
        by simp
      from wrote_trans[OF q1 put_object_wrote[OF q]] rs
      have q2: "wrote w [(b, multi_zone_key d z, multi_zone_document w z)] w2"
        by (simp add: multi_zone_key_def multi_zone_document_def)
      obtain n where n: "count_zone_name cnt ?zn ?zn = Some n"
        using count_zone_name_Some by blast
      with assms \<open>paginate (ResourceRecordSets w ?zi) [] w = Ok rs w1\<close> q
      obtain k en where "update_summary b k en w2 = Raise e w'"
        by (auto simp: multi_backup_zone_def Let_def split: if_splits result.splits)
      from update_summary_Raise[OF this] have "wrote w2 [] w'" .
      from wrote_trans[OF q2 this] show ?thesis by simp
    qed
  qed
qed

lemma counted_empty: "counted Map.empty"
  by (simp add: counted_def)

lemma counted_step: "counted cnt \<Longrightarrow> counted (count_zone_name cnt zn)"
  by (auto simp: counted_def count_zone_name_def split: option.splits)

lemma dom_count_zone_name: "dom (count_zone_name cnt zn) = insert zn (dom cnt)"
  by (auto simp: count_zone_name_def split: option.splits)

lemma counted_seen: "counted cnt \<Longrightarrow> (\<exists>c \<ge> 1. cnt zn = Some c) = (zn \<in> dom cnt)"
  by (auto simp: counted_def)

lemma wrote_static_multi:
  "wrote w ps w1 \<Longrightarrow> multi_zone_document w1 z = multi_zone_document w z \<and>
     zone_entry w1 d z = zone_entry w d z"
  by (simp add: wrote_def multi_zone_document_def zone_entry_def zone_records_def)

text \<open>One zone of a collision-aware run, by whether its name has been met.\<close>

lemma multi_backup_zone_writes:
  assumes "multi_backup_zone b d z cnt w = Ok cnt' w'" "counted cnt"
  shows "\<exists>m. wrote w ((b, multi_zone_key d z, multi_zone_document w z)
                      # (if zone_name_of z \<in> dom cnt then [(b, zone_summary_key d z, m)] else [])) w'"
proof (cases "zone_name_of z \<in> dom cnt")
  case True
  with multi_backup_zone_Ok[OF assms(1)] counted_seen[OF assms(2), of "zone_name_of z"]
  obtain m where "wrote w [(b, multi_zone_key d z, multi_zone_document w z),
                       (b, zone_summary_key d z, m)] w'" by auto
  with True show ?thesis by auto
next
  case False
  with multi_backup_zone_Ok[OF assms(1)] counted_seen[OF assms(2), of "zone_name_of z"]
  have "wrote w [(b, multi_zone_key d z, multi_zone_document w z)] w'" by auto
  with False show ?thesis by simp
qed

lemma multi_backup_zones_writes:
  "multi_backup_zones b d zs cnt w = Ok cnt' w' \<Longrightarrow> counted cnt \<Longrightarrow>
     \<exists>ps. wrote w ps w' \<and>
       map (\<lambda>q. fst (snd q)) ps = keys_from d (dom cnt) zs \<and>
       (\<forall>z \<in> set zs. (b, multi_zone_key d z, multi_zone_document w z) \<in> set ps) \<and>
       (\<forall>q \<in> set ps. (\<exists>z \<in> set zs. q = (b, multi_zone_key d z, multi_zone_document w z)) \<or>
                      (\<exists>z \<in> set zs. fst q = b \<and> fst (snd q) = zone_summary_key d z))"
proof (induction zs arbitrary: cnt w)
  case Nil
  thus ?case by (intro exI[of _ "[]"]) (simp add: quiet_wrote[symmetric] quiet_refl)
next
  case (Cons z zs)
  from Cons.prems(1) obtain cnt1 w1 where s: "multi_backup_zone b d z cnt w = Ok cnt1 w1"
    and r: "multi_backup_zones b d zs cnt1 w1 = Ok cnt' w'"
    by (auto split: result.splits)
  from multi_backup_zone_Ok[OF s] have c1: "cnt1 = count_zone_name cnt (zone_name_of z)" by simp
  from multi_backup_zone_writes[OF s Cons.prems(2)] obtain m where
    m: "wrote w ((b, multi_zone_key d z, multi_zone_document w z)
                      # (if zone_name_of z \<in> dom cnt then [(b, zone_summary_key d z, m)] else [])) w1"
    by blast
  define ps where "ps = (b, multi_zone_key d z, multi_zone_document w z)
                      # (if zone_name_of z \<in> dom cnt then [(b, zone_summary_key d z, m)] else [])"
  from m have ps: "wrote w ps w1"
    "map (\<lambda>q. fst (snd q)) ps
       = multi_zone_key d z # (if zone_name_of z \<in> dom cnt then [zone_summary_key d z] else [])"
    "hd ps = (b, multi_zone_key d z, multi_zone_document w z)"
    "\<forall>q \<in> set (tl ps). fst q = b \<and> fst (snd q) = zone_summary_key d z"
    by (simp_all add: ps_def)
  from ps(2) have ne: "ps \<noteq> []" by auto
  from Cons.IH[OF r] counted_step[OF Cons.prems(2)] c1 obtain qs where
    qs: "wrote w1 qs w'"
    "map (\<lambda>q. fst (snd q)) qs = keys_from d (dom cnt1) zs"
    "\<forall>z \<in> set zs. (b, multi_zone_key d z, multi_zone_document w1 z) \<in> set qs"
    "\<forall>q \<in> set qs. (\<exists>z \<in> set zs. q = (b, multi_zone_key d z, multi_zone_document w1 z)) \<or>
                      (\<exists>z \<in> set zs. fst q = b \<and> fst (snd q) = zone_summary_key d z)" by blast
  note st = wrote_static_multi[OF ps(1)]
  have k: "map (\<lambda>q. fst (snd q)) (ps @ qs) = keys_from d (dom cnt) (z # zs)"
    using ps(2) qs(2) c1 by (simp add: dom_count_zone_name)
  have h: "(b, multi_zone_key d z, multi_zone_document w z) \<in> set ps"
    using ps(3) ne by (metis hd_in_set)
  have a: "\<forall>z' \<in> set (z # zs). (b, multi_zone_key d z', multi_zone_document w z') \<in> set (ps @ qs)"
    using h qs(3) st by auto
  have p: "\<forall>q \<in> set ps. q = (b, multi_zone_key d z, multi_zone_document w z) \<or>
                         (fst q = b \<and> fst (snd q) = zone_summary_key d z)"
  proof
    fix q assume "q \<in> set ps"
    with ne have "q = hd ps \<or> q \<in> set (tl ps)" by (cases ps) auto
    with ps(3,4) show "q = (b, multi_zone_key d z, multi_zone_document w z) \<or>
                         (fst q = b \<and> fst (snd q) = zone_summary_key d z)" by auto
  qed
  have e: "\<forall>q \<in> set (ps @ qs).
      (\<exists>z' \<in> set (z # zs). q = (b, multi_zone_key d z', multi_zone_document w z')) \<or>
      (\<exists>z' \<in> set (z # zs). fst q = b \<and> fst (snd q) = zone_summary_key d z')"
  proof
    fix q assume "q \<in> set (ps @ qs)"
    hence "q \<in> set ps \<or> q \<in> set qs" by simp
    thus "(\<exists>z' \<in> set (z # zs). q = (b, multi_zone_key d z', multi_zone_document w z')) \<or>
      (\<exists>z' \<in> set (z # zs). fst q = b \<and> fst (snd q) = zone_summary_key d z')"
    proof
      assume "q \<in> set ps"
      with p show ?thesis by auto
    next
      assume "q \<in> set qs"
      with qs(4) st show ?thesis by fastforce
    qed
  qed
  from wrote_trans[OF ps(1) qs(1)] k a e show ?case by blast
qed

lemma wrote_keys: "wrote w ps w' \<Longrightarrow> keys_written w w' = map (\<lambda>q. fst (snd q)) ps"
  by (simp add: wrote_def keys_written_def written_def)

lemma wrote_written: "wrote w ps w' \<Longrightarrow> written w w' = ps"
  by (simp add: wrote_def written_def)

lemma multi_backup_zones_Raise:
  "multi_backup_zones b d zs cnt w = Raise e w' \<Longrightarrow> counted cnt \<Longrightarrow>
     \<exists>ps k. wrote w ps w' \<and> map (\<lambda>q. fst (snd q)) ps = take k (keys_from d (dom cnt) zs)"
proof (induction zs arbitrary: cnt w)
  case Nil
  thus ?case by simp
next
  case (Cons z zs)
  show ?case
  proof (cases "multi_backup_zone b d z cnt w")
    case (Raise e1 w1)
    with Cons.prems(1) have "w1 = w'" by simp
    with multi_backup_zone_Raise[of b d z cnt w e1 w1] Raise
    have "wrote w [] w' \<or> wrote w [(b, multi_zone_key d z, multi_zone_document w z)] w'" by simp
    thus ?thesis
    proof
      assume "wrote w [] w'"
      thus ?thesis by (intro exI[of _ "[]"] exI[of _ 0]) simp
    next
      assume "wrote w [(b, multi_zone_key d z, multi_zone_document w z)] w'"
      thus ?thesis
        by (intro exI[of _ "[(b, multi_zone_key d z, multi_zone_document w z)]"] exI[of _ 1]) simp
    qed
  next
    case (Ok cnt1 w1)
    with Cons.prems(1) have r: "multi_backup_zones b d zs cnt1 w1 = Raise e w'" by simp
    from multi_backup_zone_Ok[OF Ok] have c1: "cnt1 = count_zone_name cnt (zone_name_of z)" by simp
    from multi_backup_zone_writes[OF Ok Cons.prems(2)] obtain m where
      m: "wrote w ((b, multi_zone_key d z, multi_zone_document w z)
                      # (if zone_name_of z \<in> dom cnt then [(b, zone_summary_key d z, m)] else [])) w1"
      by blast
    from Cons.IH[OF r] counted_step[OF Cons.prems(2)] c1 obtain qs k where
      qs: "wrote w1 qs w'" "map (\<lambda>q. fst (snd q)) qs = take k (keys_from d (dom cnt1) zs)" by blast
    let ?ks = "multi_zone_key d z # (if zone_name_of z \<in> dom cnt then [zone_summary_key d z] else [])"
    from qs(2) c1 have "?ks @ map (\<lambda>q. fst (snd q)) qs = take (length ?ks + k) (keys_from d (dom cnt) (z # zs))"
      by (simp add: dom_count_zone_name)
    with wrote_trans[OF m qs(1)] show ?thesis
      by (intro exI[of _ "((b, multi_zone_key d z, multi_zone_document w z)
                      # (if zone_name_of z \<in> dom cnt then [(b, zone_summary_key d z, m)] else [])) @ qs"]
                exI[of _ "length ?ks + k"]) (simp split: if_splits)
  qed
qed

lemma list_hosted_zones_quiet: "quiet w (world_of (list_hosted_zones w))"
proof -
  obtain f w1 where r: "request w = (f, w1)" by (cases "request w")
  with request_quiet[OF r] show ?thesis
    by (simp add: list_hosted_zones_def split: option.splits)
qed

lemma list_hosted_zones_Ok:
  "list_hosted_zones w = Ok zs w1 \<Longrightarrow> zs = HostedZones w \<and> wrote w [] w1"
proof -
  assume a: "list_hosted_zones w = Ok zs w1"
  obtain f w2 where r: "request w = (f, w2)" by (cases "request w")
  with a request_quiet[OF r] show ?thesis
    by (auto simp: list_hosted_zones_def quiet_wrote[symmetric] quiet_def split: option.splits)
qed

text \<open>A run of the collision-aware handler that returns status 200.\<close>

lemma multi_backup_success:
  assumes "multi_backup_lambda_handler w = (Returned r, w')" "statusCode r = 200"
  shows "\<exists>b wl cnt'. environ w ''BACKUP_BUCKET'' = Some b \<and> wrote w [] wl \<and>
     multi_backup_zones b (strftime (now w) ''%Y-%m-%d_%H:%M:%S'') (HostedZones w) Map.empty wl
       = Ok cnt' w'"
proof -
  from assms have t: "multi_backup_try w = Ok r w'"
    by (cases "multi_backup_try w") (auto simp: multi_backup_lambda_handler_def backup_failed_def)
  then obtain b where b: "environ w ''BACKUP_BUCKET'' = Some b"
    by (cases "environ w ''BACKUP_BUCKET''") (auto simp: multi_backup_try_def)
  from t b obtain zs wl where l: "list_hosted_zones w = Ok zs wl"
    by (cases "list_hosted_zones w") (auto simp: multi_backup_try_def)
  note q = list_hosted_zones_Ok[OF l]
  hence n: "now wl = now w" by (simp add: wrote_def)
  from t b l obtain cnt' where
    "multi_backup_zones b (strftime (now wl) ''%Y-%m-%d_%H:%M:%S'') zs Map.empty wl = Ok cnt' w'"
    by (cases "multi_backup_zones b (strftime (now wl) ''%Y-%m-%d_%H:%M:%S'') zs Map.empty wl")
       (auto simp: multi_backup_try_def Let_def simp del: strftime.simps)
  with b q n show ?thesis by (auto simp del: strftime.simps)
qed

lemma backup_success:
  assumes "backup_lambda_handler w = (Returned r, w')" "statusCode r = 200"
  shows "\<exists>b wl. environ w ''BACKUP_BUCKET'' = Some b \<and> wrote w [] wl \<and>
     backup_zones b (strftime (now w) ''%Y%m%d_%H%M%S'') (HostedZones w) wl = Ok () w'"
proof -
  from assms have t: "backup_try w = Ok r w'"
    by (cases "backup_try w") (auto simp: backup_lambda_handler_def backup_failed_def)
  then obtain b where b: "environ w ''BACKUP_BUCKET'' = Some b"
    by (cases "environ w ''BACKUP_BUCKET''") (auto simp: backup_try_def)
  from t b obtain zs wl where l: "list_hosted_zones w = Ok zs wl"
    by (cases "list_hosted_zones w") (auto simp: backup_try_def)
  note q = list_hosted_zones_Ok[OF l]
  hence n: "now wl = now w" by (simp add: wrote_def)
  from t b l have
    "backup_zones b (strftime (now wl) ''%Y%m%d_%H%M%S'') zs wl = Ok () w'"
    by (cases "backup_zones b (strftime (now wl) ''%Y%m%d_%H%M%S'') zs wl")
       (auto simp: backup_try_def Let_def simp del: strftime.simps)
  with b q n show ?thesis by (auto simp del: strftime.simps)
qed

lemma keys_written_same: "keys_written w w = []"
  by (simp add: keys_written_def written_def)

lemma quiet_keys: "quiet w w' \<Longrightarrow> keys_written w w' = []"
  by (simp add: quiet_wrote wrote_keys)

lemma backup_run_keys:
  "\<exists>k. keys_written w (snd (backup_lambda_handler w))
        = take k (map (zone_key (strftime (now w) ''%Y%m%d_%H%M%S'')) (HostedZones w))"
proof (cases "environ w ''BACKUP_BUCKET''")
  case None
  hence "snd (backup_lambda_handler w) = w"
    by (simp add: backup_lambda_handler_def backup_try_def)
  thus ?thesis by (intro exI[of _ 0]) (simp add: keys_written_same)
next
  case (Some b)
  show ?thesis
  proof (cases "list_hosted_zones w")
    case (Raise e w1)
    with Some have "snd (backup_lambda_handler w) = w1"
      by (simp add: backup_lambda_handler_def backup_try_def)
    with list_hosted_zones_quiet[of w] Raise show ?thesis
      by (intro exI[of _ 0]) (simp add: quiet_keys)
  next
    case (Ok zs wl)
    note q = list_hosted_zones_Ok[OF Ok]
    hence n: "now wl = now w" by (simp add: wrote_def)
    let ?d = "strftime (now w) ''%Y%m%d_%H%M%S''"
    show ?thesis
    proof (cases "backup_zones b ?d zs wl")
      case R: (Raise e w2)
      with Some Ok n have s: "snd (backup_lambda_handler w) = w2"
        by (simp add: backup_lambda_handler_def backup_try_def Let_def del: strftime.simps)
      from backup_zones_Raise[OF R] obtain k where
        "wrote wl (map (\<lambda>z. (b, zone_key ?d z, zone_document wl z)) (take k zs)) w2" by blast
      from wrote_keys[OF wrote_trans[OF conjunct2[OF q] this]] q s show ?thesis
        by (intro exI[of _ k]) (simp add: take_map comp_def del: strftime.simps)
    next
      case O: (Ok u w2)
      with Some Ok n have s: "snd (backup_lambda_handler w) = w2"
        by (simp add: backup_lambda_handler_def backup_try_def Let_def del: strftime.simps)
      from O have "backup_zones b ?d zs wl = Ok () w2" by simp
      from wrote_keys[OF wrote_trans[OF conjunct2[OF q] backup_zones_Ok[OF this]]] q s show ?thesis
        by (intro exI[of _ "length zs"]) (simp add: comp_def del: strftime.simps)
    qed
  qed
qed

lemma multi_backup_run_keys:
  "\<exists>k. keys_written w (snd (multi_backup_lambda_handler w))
        = take k (keys_from (strftime (now w) ''%Y-%m-%d_%H:%M:%S'') {} (HostedZones w))"
proof (cases "environ w ''BACKUP_BUCKET''")
  case None
  hence "snd (multi_backup_lambda_handler w) = w"
    by (simp add: multi_backup_lambda_handler_def multi_backup_try_def)
  thus ?thesis by (intro exI[of _ 0]) (simp add: keys_written_same)
next
  case (Some b)
  show ?thesis
  proof (cases "list_hosted_zones w")
    case (Raise e w1)
    with Some have "snd (multi_backup_lambda_handler w) = w1"
      by (simp add: multi_backup_lambda_handler_def multi_backup_try_def)
    with list_hosted_zones_quiet[of w] Raise show ?thesis
      by (intro exI[of _ 0]) (simp add: quiet_keys)
  next
    case (Ok zs wl)
    note q = list_hosted_zones_Ok[OF Ok]
    hence n: "now wl = now w" by (simp add: wrote_def)
    let ?d = "strftime (now w) ''%Y-%m-%d_%H:%M:%S''"
    show ?thesis
    proof (cases "multi_backup_zones b ?d zs Map.empty wl")
      case R: (Raise e w2)
      with Some Ok n have s: "snd (multi_backup_lambda_handler w) = w2"
        by (simp add: multi_backup_lambda_handler_def multi_backup_try_def Let_def del: strftime.simps)
      from multi_backup_zones_Raise[OF R counted_empty] obtain ps k where
        "wrote wl ps w2" "map (\<lambda>q. fst (snd q)) ps = take k (keys_from ?d {} zs)" by auto
      with wrote_keys[OF wrote_trans[OF conjunct2[OF q] this(1)]] q s show ?thesis
        by (intro exI[of _ k]) (simp del: strftime.simps)
    next
      case O: (Ok cnt' w2)
      with Some Ok n have s: "snd (multi_backup_lambda_handler w) = w2"
        by (simp add: multi_backup_lambda_handler_def multi_backup_try_def Let_def del: strftime.simps)
      from multi_backup_zones_writes[OF O counted_empty] obtain ps where
        "wrote wl ps w2" "map (\<lambda>q. fst (snd q)) ps = keys_from ?d {} zs" by auto
      with wrote_keys[OF wrote_trans[OF conjunct2[OF q] this(1)]] q s show ?thesis
        by (intro exI[of _ "length (keys_from ?d {} zs)"]) (simp del: strftime.simps)
    qed
  qed
qed

text \<open>The two timestamps, digit by digit.\<close>

lemma digit_decimal_digit: "digit (n div 10 ^ p) = decimal_digit n p"
  by (simp add: digit_def decimal_digit_def)

lemma two_digits_layout: "two_digits n = [decimal_digit n 1, decimal_digit n 0]"
  by (simp add: two_digits_def digit_def decimal_digit_def)

lemma decimal_four:
  assumes "1000 \<le> n" "n \<le> 9999"
  shows "decimal n = [decimal_digit n 3, decimal_digit n 2, decimal_digit n 1, decimal_digit n 0]"
proof -
  from assms have a: "\<not> n < 10" "\<not> n div 10 < 10" "\<not> n div 100 < 10" "n div 1000 < 10"
    by simp_all
  have d: "n div 10 div 10 = n div 100" "n div 100 div 10 = n div 1000"
    by (simp_all add: div_mult2_eq[symmetric])
  have "decimal n = decimal (n div 10) @ [digit n]" using a by (simp add: decimal.simps[of n])
  also have "decimal (n div 10) = decimal (n div 100) @ [digit (n div 10)]"
    using a d by (simp add: decimal.simps[of "n div 10"])
  also have "decimal (n div 100) = decimal (n div 1000) @ [digit (n div 100)]"
    using a d by (simp add: decimal.simps[of "n div 100"])
  also have "decimal (n div 1000) = [digit (n div 1000)]"
    using a by (simp add: decimal.simps[of "n div 1000"])
  finally show ?thesis
    by (simp add: digit_def decimal_digit_def)
qed

lemma strftime_basic:
  "1000 \<le> year dt \<Longrightarrow> year dt \<le> 9999 \<Longrightarrow>
     strftime dt ''%Y%m%d_%H%M%S'' = layout_YYYYMMDD_HHMMSS dt"
  by (simp add: decimal_four two_digits_layout layout_YYYYMMDD_HHMMSS_def)

lemma strftime_multi:
  "1000 \<le> year dt \<Longrightarrow> year dt \<le> 9999 \<Longrightarrow>
     strftime dt ''%Y-%m-%d_%H:%M:%S'' = layout_YYYY_MM_DD_HH_MM_SS dt"
  by (simp add: decimal_four two_digits_layout layout_YYYY_MM_DD_HH_MM_SS_def)

subsection \<open>The keys of a backup run\<close>

lemma keys_from_index:
  "keys_from d seen zs =
     concat (map (\<lambda>i. multi_zone_key d (zs ! i)
                        # (if zone_name_of (zs ! i) \<in> seen \<union> zone_name_of ` set (take i zs)
                           then [zone_summary_key d (zs ! i)] else []))
                 [0..<length zs])"
proof (induction zs arbitrary: seen)
  case Nil
  show ?case by simp
next
  case (Cons z zs)
  have u: "[0..<length (z # zs)] = 0 # map Suc [0..<length zs]"
    by (simp add: upt_conv_Cons map_Suc_upt del: upt_Suc)
  show ?case
    unfolding u by (simp add: Cons.IH comp_def disj_ac cong: if_cong del: upt_Suc)
qed

lemma zone_id_of_stripped:
  "CHR ''/'' \<notin> set (zone_id_of z) \<and>
   (\<exists>p. zone_Id z = p @ zone_id_of z \<and> (p = [] \<or> last p = CHR ''/''))"
  using last_split_no_sep[of "CHR ''/''" "zone_Id z"] last_split_suffix[of "zone_Id z" "CHR ''/''"]
  by (simp add: zone_id_of_def)

lemma zone_name_of_stripped:
  "(\<exists>n. zone_Name z = zone_name_of z @ replicate n CHR ''.'') \<and>
   (zone_name_of z = [] \<or> last (zone_name_of z) \<noteq> CHR ''.'')"
  using rstrip_suffix[of "zone_Name z" "CHR ''.''"] rstrip_no_trailing[of "CHR ''.''" "zone_Name z"]
  by (simp add: zone_name_of_def)

lemma backup_success_keys:
  assumes "fst (backup_lambda_handler w) = Returned r" "statusCode r = 200"
  shows "keys_written w (snd (backup_lambda_handler w))
           = map (zone_key (strftime (now w) ''%Y%m%d_%H%M%S'')) (HostedZones w)"
proof -
  from assms(1) have "backup_lambda_handler w = (Returned r, snd (backup_lambda_handler w))"
    by (metis prod.collapse)
  from backup_success[OF this assms(2)] obtain b wl where
    q: "wrote w [] wl" and
    z: "backup_zones b (strftime (now w) ''%Y%m%d_%H%M%S'') (HostedZones w) wl
          = Ok () (snd (backup_lambda_handler w))" by blast
  from wrote_keys[OF wrote_trans[OF q backup_zones_Ok[OF z]]] show ?thesis
    by (simp add: comp_def del: strftime.simps)
qed

lemma multi_backup_success_keys:
  assumes "fst (multi_backup_lambda_handler w) = Returned r" "statusCode r = 200"
  shows "keys_written w (snd (multi_backup_lambda_handler w))
           = keys_from (strftime (now w) ''%Y-%m-%d_%H:%M:%S'') {} (HostedZones w)"
proof -
  from assms(1) have "multi_backup_lambda_handler w = (Returned r, snd (multi_backup_lambda_handler w))"
    by (metis prod.collapse)
  from multi_backup_success[OF this assms(2)] obtain b wl cnt' where
    q: "wrote w [] wl" and
    z: "multi_backup_zones b (strftime (now w) ''%Y-%m-%d_%H:%M:%S'') (HostedZones w) Map.empty wl
          = Ok cnt' (snd (multi_backup_lambda_handler w))" by blast
  from multi_backup_zones_writes[OF z counted_empty] obtain ps where
    "wrote wl ps (snd (multi_backup_lambda_handler w))"
    "map (\<lambda>q. fst (snd q)) ps = keys_from (strftime (now w) ''%Y-%m-%d_%H:%M:%S'') {} (HostedZones w)"
    by auto
  with wrote_keys[OF wrote_trans[OF q this(1)]] show ?thesis
    by (simp del: strftime.simps)
qed

text \<open>
  C8: the keys a backup run writes, in order, for a date with a year of four digits. The
  basic variant writes, for each zone in listing order,
  \<open><YYYYMMDD_HHMMSS>/<zone_name>/route53_backup.json\<close>. The collision-aware variant writes,
  for each zone in listing order,
  \<open><YYYY-MM-DD_HH:MM:SS>/<zone_name>/<zone_id>/route53_backup.json\<close>, followed by
  \<open><YYYY-MM-DD_HH:MM:SS>/<zone_name>/zone_summary.json\<close> when an earlier zone of the
  listing has the same name. A run that fails has written a first part of these keys,
  a run that returns status 200 all of them. \<open>zone_id\<close> is what follows the last \<open>/\<close>
  of the identifier and holds no \<open>/\<close>; \<open>zone_name\<close> is the name without its trailing
  dots.
\<close>

theorem backup_key_layout:
  assumes "1000 \<le> year (now w)" and "year (now w) \<le> 9999"
  shows "(\<exists>k. keys_written w (snd (backup_lambda_handler w)) =
            take k (map (\<lambda>z. layout_YYYYMMDD_HHMMSS (now w) @ ''/'' @ zone_name_of z
                                @ ''/route53_backup.json'')
                        (HostedZones w))) \<and>
         (\<forall>r. fst (backup_lambda_handler w) = Returned r \<and> statusCode r = 200 \<longrightarrow>
            keys_written w (snd (backup_lambda_handler w)) =
              map (\<lambda>z. layout_YYYYMMDD_HHMMSS (now w) @ ''/'' @ zone_name_of z
                          @ ''/route53_backup.json'')
                  (HostedZones w)) \<and>
         (\<exists>k. keys_written w (snd (multi_backup_lambda_handler w)) =
            take k (concat (map
              (\<lambda>i. (layout_YYYY_MM_DD_HH_MM_SS (now w) @ ''/'' @ zone_name_of (HostedZones w ! i)
                       @ ''/'' @ zone_id_of (HostedZones w ! i) @ ''/route53_backup.json'')
                    # (if zone_name_of (HostedZones w ! i)
                            \<in> zone_name_of ` set (take i (HostedZones w))
                       then [layout_YYYY_MM_DD_HH_MM_SS (now w) @ ''/''
                               @ zone_name_of (HostedZones w ! i) @ ''/zone_summary.json'']
                       else []))
              [0..<length (HostedZones w)]))) \<and>
         (\<forall>r. fst (multi_backup_lambda_handler w) = Returned r \<and> statusCode r = 200 \<longrightarrow>
            keys_written w (snd (multi_backup_lambda_handler w)) =
              concat (map
              (\<lambda>i. (layout_YYYY_MM_DD_HH_MM_SS (now w) @ ''/'' @ zone_name_of (HostedZones w ! i)
                       @ ''/'' @ zone_id_of (HostedZones w ! i) @ ''/route53_backup.json'')
                    # (if zone_name_of (HostedZones w ! i)
                            \<in> zone_name_of ` set (take i (HostedZones w))
                       then [layout_YYYY_MM_DD_HH_MM_SS (now w) @ ''/''
                               @ zone_name_of (HostedZones w ! i) @ ''/zone_summary.json'']
                       else []))
              [0..<length (HostedZones w)])) \<and>
         (\<forall>z. CHR ''/'' \<notin> set (zone_id_of z) \<and>
              (\<exists>p. zone_Id z = p @ zone_id_of z \<and> (p = [] \<or> last p = CHR ''/''))) \<and>
         (\<forall>z. (\<exists>n. zone_Name z = zone_name_of z @ replicate n CHR ''.'') \<and>
              (zone_name_of z = [] \<or> last (zone_name_of z) \<noteq> CHR ''.''))"
proof -
  note b = strftime_basic[OF assms] and m = strftime_multi[OF assms]
  have zk: "zone_key (layout_YYYYMMDD_HHMMSS (now w))
      = (\<lambda>z. layout_YYYYMMDD_HHMMSS (now w) @ ''/'' @ zone_name_of z @ ''/route53_backup.json'')"
    by (simp add: zone_key_def backup_file_key_def fun_eq_iff)
  have kf: "keys_from (layout_YYYY_MM_DD_HH_MM_SS (now w)) {} (HostedZones w) =
      concat (map
              (\<lambda>i. (layout_YYYY_MM_DD_HH_MM_SS (now w) @ ''/'' @ zone_name_of (HostedZones w ! i)
                       @ ''/'' @ zone_id_of (HostedZones w ! i) @ ''/route53_backup.json'')
                    # (if zone_name_of (HostedZones w ! i)
                            \<in> zone_name_of ` set (take i (HostedZones w))
                       then [layout_YYYY_MM_DD_HH_MM_SS (now w) @ ''/''
                               @ zone_name_of (HostedZones w ! i) @ ''/zone_summary.json'']
                       else []))
              [0..<length (HostedZones w)])"
    by (simp add: keys_from_index multi_zone_key_def multi_backup_file_key_def
        zone_summary_key_def summary_file_key_def cong: if_cong)
  from backup_run_keys[of w] have 1: "\<exists>k. keys_written w (snd (backup_lambda_handler w)) =
            take k (map (\<lambda>z. layout_YYYYMMDD_HHMMSS (now w) @ ''/'' @ zone_name_of z
                                @ ''/route53_backup.json'')
                        (HostedZones w))"
    unfolding b zk .
  have 2: "\<forall>r. fst (backup_lambda_handler w) = Returned r \<and> statusCode r = 200 \<longrightarrow>
            keys_written w (snd (backup_lambda_handler w)) =
              map (\<lambda>z. layout_YYYYMMDD_HHMMSS (now w) @ ''/'' @ zone_name_of z
                          @ ''/route53_backup.json'')
                  (HostedZones w)"
    using backup_success_keys[of w] unfolding b zk by blast
  from multi_backup_run_keys[of w] have 3: "\<exists>k. keys_written w (snd (multi_backup_lambda_handler w)) =
            take k (keys_from (layout_YYYY_MM_DD_HH_MM_SS (now w)) {} (HostedZones w))"
    unfolding m .
  have 4: "\<forall>r. fst (multi_backup_lambda_handler w) = Returned r \<and> statusCode r = 200 \<longrightarrow>
            keys_written w (snd (multi_backup_lambda_handler w)) =
              keys_from (layout_YYYY_MM_DD_HH_MM_SS (now w)) {} (HostedZones w)"
    using multi_backup_success_keys[of w] unfolding m by blast
  from 1 2 3[unfolded kf] 4[unfolded kf] zone_id_of_stripped zone_name_of_stripped
  show ?thesis by blast
qed

theorem backup_key_layout_witness:
  "keys_written (backup_world [] Map.empty []) (snd (backup_lambda_handler (backup_world [] Map.empty [])))
     = [''20240102_030405/example.com/route53_backup.json'',
        ''20240102_030405/example.com/route53_backup.json'',
        ''20240102_030405/other.com/route53_backup.json''] \<and>
   keys_written (backup_world [] Map.empty []) (snd (multi_backup_lambda_handler (backup_world [] Map.empty [])))
     = [''2024-01-02_03:04:05/example.com/Z1/route53_backup.json'',
        ''2024-01-02_03:04:05/example.com/Z2/route53_backup.json'',
        ''2024-01-02_03:04:05/example.com/zone_summary.json'',
        ''2024-01-02_03:04:05/other.com/Z3/route53_backup.json'']"
proof -
  let ?W = "backup_world [] Map.empty []"
  have y: "1000 \<le> year (now ?W)" "year (now ?W) \<le> 9999"
    by (simp_all add: backup_world_def)
  have n: "now ?W = \<lparr>year = 2024, month = 1, day = 2, hour = 3, minute = 4, second = 5\<rparr>"
    and z: "HostedZones ?W = scenario_zones"
    by (simp_all add: backup_world_def)
  have s1: "\<exists>r. fst (backup_lambda_handler ?W) = Returned r \<and> statusCode r = 200"
    by (simp add: backup_lambda_handler_def backup_try_def backup_world_def list_hosted_zones_def
        request_def backup_zone_def put_object_def Let_def scenario_zones_def)
  have s2: "\<exists>r. fst (multi_backup_lambda_handler ?W) = Returned r \<and> statusCode r = 200"
    by (simp add: multi_backup_lambda_handler_def multi_backup_try_def backup_world_def
        list_hosted_zones_def request_def multi_backup_zone_def put_object_def get_object_def
        update_summary_def read_summary_def count_zone_name_def NoSuchKey_def Let_def
        scenario_zones_def zone_name_of_def rstrip_def zone_id_of_def
        multi_backup_file_key_def summary_file_key_def)
  have l1: "layout_YYYYMMDD_HHMMSS (now ?W) = ''20240102_030405''"
    unfolding n by (simp add: layout_YYYYMMDD_HHMMSS_def decimal_digit_def)
  have l2: "layout_YYYY_MM_DD_HH_MM_SS (now ?W) = ''2024-01-02_03:04:05''"
    unfolding n by (simp add: layout_YYYY_MM_DD_HH_MM_SS_def decimal_digit_def)
  from backup_key_layout[OF y] s1 s2
  have "keys_written ?W (snd (backup_lambda_handler ?W)) =
              map (\<lambda>z. layout_YYYYMMDD_HHMMSS (now ?W) @ ''/'' @ zone_name_of z
                          @ ''/route53_backup.json'')
                  (HostedZones ?W)"
    and "keys_written ?W (snd (multi_backup_lambda_handler ?W)) =
              concat (map
              (\<lambda>i. (layout_YYYY_MM_DD_HH_MM_SS (now ?W) @ ''/'' @ zone_name_of (HostedZones ?W ! i)
                       @ ''/'' @ zone_id_of (HostedZones ?W ! i) @ ''/route53_backup.json'')
                    # (if zone_name_of (HostedZones ?W ! i)
                            \<in> zone_name_of ` set (take i (HostedZones ?W))
                       then [layout_YYYY_MM_DD_HH_MM_SS (now ?W) @ ''/''
                               @ zone_name_of (HostedZones ?W ! i) @ ''/zone_summary.json'']
                       else []))
              [0..<length (HostedZones ?W)])"
    by blast+
  thus ?thesis
    unfolding l1 l2 z
    by (simp_all add: scenario_zones_def zone_name_of_def rstrip_def zone_id_of_def)
qed

subsection \<open>Which documents a run keeps\<close>

lemma store_snoc:
  "store (ps @ [q]) ob = (store ps ob)((fst q, fst (snd q)) \<mapsto> Document (snd (snd q)))"
  by (simp add: store_def)

lemma store_lookup:
  "(b, k, v) \<in> set ps \<Longrightarrow>
   (\<forall>q \<in> set ps. fst q = b \<and> fst (snd q) = k \<longrightarrow> snd (snd q) = v) \<Longrightarrow>
   store ps ob (b, k) = Some (Document v)"
proof (induction ps rule: rev_induct)
  case Nil
  thus ?case by simp
next
  case (snoc q ps)
  show ?case
  proof (cases "fst q = b \<and> fst (snd q) = k")
    case True
    with snoc.prems(2) have "snd (snd q) = v" by simp
    with True show ?thesis by (simp add: store_snoc)
  next
    case False
    with snoc.prems(1) have "(b, k, v) \<in> set ps" by auto
    from snoc.IH[OF this] snoc.prems(2) False show ?thesis
      by (auto simp: store_snoc)
  qed
qed

lemma multi_zone_key_eq:
  "multi_zone_key d z1 = multi_zone_key d z2 \<longleftrightarrow>
     zone_name_of z1 = zone_name_of z2 \<and> zone_id_of z1 = zone_id_of z2"
  unfolding multi_zone_key_def
  by (rule multi_backup_key_inj) (simp_all add: zone_id_of_stripped)

lemma multi_zone_document_eq:
  "zone_name_of z1 = zone_name_of z2 \<Longrightarrow> zone_id_of z1 = zone_id_of z2 \<Longrightarrow>
     multi_zone_document w z1 = multi_zone_document w z2"
  by (simp add: multi_zone_document_def zone_records_def)

lemma zone_key_eq: "zone_key d z1 = zone_key d z2 \<longleftrightarrow> zone_name_of z1 = zone_name_of z2"
  by (simp add: zone_key_def backup_key_inj)

text \<open>After a collision-aware run that returns status 200, the document of every zone is
  under its key.\<close>

lemma multi_backup_documents_stored:
  assumes "fst (multi_backup_lambda_handler w) = Returned r" "statusCode r = 200"
    and "environ w ''BACKUP_BUCKET'' = Some b" and "z \<in> set (HostedZones w)"
  shows "objects (snd (multi_backup_lambda_handler w))
           (b, multi_zone_key (strftime (now w) ''%Y-%m-%d_%H:%M:%S'') z)
         = Some (Document (multi_zone_document w z))"
proof -
  let ?d = "strftime (now w) ''%Y-%m-%d_%H:%M:%S''"
  let ?w' = "snd (multi_backup_lambda_handler w)"
  from assms(1) have "multi_backup_lambda_handler w = (Returned r, ?w')"
    by (metis prod.collapse)
  from multi_backup_success[OF this assms(2)] assms(3) obtain wl cnt' where
    q: "wrote w [] wl" and
    l: "multi_backup_zones b ?d (HostedZones w) Map.empty wl = Ok cnt' ?w'" by auto
  from q have st: "\<And>z. multi_zone_document wl z = multi_zone_document w z"
    by (simp add: wrote_static_multi)
  from multi_backup_zones_writes[OF l counted_empty] obtain ps where
    ps: "wrote wl ps ?w'"
    "\<forall>z \<in> set (HostedZones w). (b, multi_zone_key ?d z, multi_zone_document wl z) \<in> set ps"
    "\<forall>q \<in> set ps. (\<exists>z \<in> set (HostedZones w). q = (b, multi_zone_key ?d z, multi_zone_document wl z)) \<or>
                    (\<exists>z \<in> set (HostedZones w). fst q = b \<and> fst (snd q) = zone_summary_key ?d z)"
    by blast
  from ps(2) assms(4) st have m: "(b, multi_zone_key ?d z, multi_zone_document w z) \<in> set ps"
    by simp
  have u: "\<forall>q \<in> set ps. fst q = b \<and> fst (snd q) = multi_zone_key ?d z \<longrightarrow>
             snd (snd q) = multi_zone_document w z"
  proof (intro ballI impI)
    fix q assume q: "q \<in> set ps" and k: "fst q = b \<and> fst (snd q) = multi_zone_key ?d z"
    from ps(3) q have "(\<exists>z' \<in> set (HostedZones w). q = (b, multi_zone_key ?d z', multi_zone_document wl z')) \<or>
                    (\<exists>z' \<in> set (HostedZones w). fst q = b \<and> fst (snd q) = zone_summary_key ?d z')"
      by blast
    thus "snd (snd q) = multi_zone_document w z"
    proof
      assume "\<exists>z' \<in> set (HostedZones w). q = (b, multi_zone_key ?d z', multi_zone_document wl z')"
      then obtain z' where z': "q = (b, multi_zone_key ?d z', multi_zone_document wl z')" by blast
      with k have "multi_zone_key ?d z' = multi_zone_key ?d z" by simp
      hence "zone_name_of z' = zone_name_of z \<and> zone_id_of z' = zone_id_of z"
        by (simp only: multi_zone_key_eq)
      with multi_zone_document_eq[of z' z w] z' st show ?thesis by simp
    next
      assume "\<exists>z' \<in> set (HostedZones w). fst q = b \<and> fst (snd q) = zone_summary_key ?d z'"
      with k zone_keys_differ[of ?d _ z] show ?thesis by metis
    qed
  qed
  from wrote_trans[OF q ps(1)] have "objects ?w' = store ps (objects w)"
    by (simp add: wrote_def)
  with store_lookup[OF m u] show ?thesis by simp
qed

text \<open>The same for the basic variant, when no two zones of the listing have the same
  name.\<close>

lemma backup_documents_stored:
  assumes "fst (backup_lambda_handler w) = Returned r" "statusCode r = 200"
    and "environ w ''BACKUP_BUCKET'' = Some b" and "z \<in> set (HostedZones w)"
    and "inj_on zone_name_of (set (HostedZones w))"
  shows "objects (snd (backup_lambda_handler w))
           (b, zone_key (strftime (now w) ''%Y%m%d_%H%M%S'') z)
         = Some (Document (zone_document w z))"
proof -
  let ?d = "strftime (now w) ''%Y%m%d_%H%M%S''"
  let ?w' = "snd (backup_lambda_handler w)"
  from assms(1) have "backup_lambda_handler w = (Returned r, ?w')"
    by (metis prod.collapse)
  from backup_success[OF this assms(2)] assms(3) obtain wl where
    q: "wrote w [] wl" and
    l: "backup_zones b ?d (HostedZones w) wl = Ok () ?w'" by auto
  from q have st: "\<And>z. zone_document wl z = zone_document w z"
    by (rule wrote_static_document)
  let ?ps = "map (\<lambda>z. (b, zone_key ?d z, zone_document w z)) (HostedZones w)"
  from backup_zones_Ok[OF l] st have ps: "wrote wl ?ps ?w'" by simp
  from assms(4) have m: "(b, zone_key ?d z, zone_document w z) \<in> set ?ps" by auto
  have u: "\<forall>q \<in> set ?ps. fst q = b \<and> fst (snd q) = zone_key ?d z \<longrightarrow>
             snd (snd q) = zone_document w z"
  proof (intro ballI impI)
    fix q assume "q \<in> set ?ps" and k: "fst q = b \<and> fst (snd q) = zone_key ?d z"
    then obtain z' where z': "z' \<in> set (HostedZones w)" "q = (b, zone_key ?d z', zone_document w z')"
      by auto
    with k have "zone_name_of z' = zone_name_of z" by (simp add: zone_key_eq del: strftime.simps)
    with assms(4,5) z'(1) have "z' = z" by (auto dest: inj_onD)
    with z' show "snd (snd q) = zone_document w z" by simp
  qed
  from wrote_trans[OF q ps] have "objects ?w' = store ?ps (objects w)"
    by (simp add: wrote_def)
  with store_lookup[OF m u] show ?thesis by simp
qed

text \<open>
  C7, as the claim states it: any two distinct zones of a backup run write different
  backup keys, so no document of the run is replaced. The basic variant over the three
  zones of the scenario: the zones \<open>Z1\<close> and \<open>Z2\<close>, both named \<open>example.com\<close>, write
  the same key, and the run, which returns status 200, ends with the document of \<open>Z2\<close>
  under it and not that of \<open>Z1\<close>.
\<close>

theorem basic_backup_overwrites:
  "fst (backup_lambda_handler (backup_world [] Map.empty []))
     = Returned \<lparr>statusCode = 200,
         response_body = JObj [(''message'', JStr ''Backup operation completed''),
                               (''backup_bucket'', JStr ''backups''),
                               (''date'', JStr ''20240102_030405'')]\<rparr> \<and>
   written (backup_world [] Map.empty []) (snd (backup_lambda_handler (backup_world [] Map.empty [])))
     = [(''backups'', ''20240102_030405/example.com/route53_backup.json'',
         JObj [(''zone'', JObj [(''Id'', JStr ''Z1''), (''Name'', JStr ''example.com'')]),
               (''records'', JArr [record_SOA, record_NS, record_A])]),
        (''backups'', ''20240102_030405/example.com/route53_backup.json'',
         JObj [(''zone'', JObj [(''Id'', JStr ''Z2''), (''Name'', JStr ''example.com'')]),
               (''records'', JArr [record_SOA, record_NS, record_A])]),
        (''backups'', ''20240102_030405/other.com/route53_backup.json'',
         JObj [(''zone'', JObj [(''Id'', JStr ''Z3''), (''Name'', JStr ''other.com'')]),
               (''records'', JArr [record_SOA, record_NS, record_A])])] \<and>
   objects (snd (backup_lambda_handler (backup_world [] Map.empty [])))
       (''backups'', ''20240102_030405/example.com/route53_backup.json'')
     = Some (Document
         (JObj [(''zone'', JObj [(''Id'', JStr ''Z2''), (''Name'', JStr ''example.com'')]),
                (''records'', JArr [record_SOA, record_NS, record_A])])) \<and>
   objects (snd (backup_lambda_handler (backup_world [] Map.empty [])))
       (''backups'', ''20240102_030405/example.com/route53_backup.json'')
     \<noteq> Some (Document
         (JObj [(''zone'', JObj [(''Id'', JStr ''Z1''), (''Name'', JStr ''example.com'')]),
                (''records'', JArr [record_SOA, record_NS, record_A])]))"
  by (simp add: backup_lambda_handler_def backup_try_def backup_world_def list_hosted_zones_def
        request_def backup_zone_def put_object_def Let_def scenario_zones_def written_def
        zone_name_of_def rstrip_def zone_id_of_def backup_file_key_def backup_data_def
        decimal.simps two_digits_def digit_def)

text \<open>
  C7, amended. In the collision-aware variant two zones write the same backup key only
  when they have the same name and the same identifier (after stripping), and no backup
  key is a summary key; in a run that returns status 200 the backup document of every
  zone of the listing is under its key at the end. In the basic variant two zones write
  the same key exactly when they have the same name; in a run that returns status 200
  over zones of pairwise different names the document of every zone is under its key at
  the end.
\<close>

theorem backup_documents_kept:
  "(d @ ''/'' @ zone_name_of z1 @ ''/'' @ zone_id_of z1 @ ''/route53_backup.json''
      = d @ ''/'' @ zone_name_of z2 @ ''/'' @ zone_id_of z2 @ ''/route53_backup.json''
    \<longleftrightarrow> zone_name_of z1 = zone_name_of z2 \<and> zone_id_of z1 = zone_id_of z2) \<and>
   d @ ''/'' @ zone_name_of z1 @ ''/'' @ zone_id_of z1 @ ''/route53_backup.json''
     \<noteq> d @ ''/'' @ n @ ''/zone_summary.json'' \<and>
   (fst (multi_backup_lambda_handler w) = Returned r \<and> statusCode r = 200 \<and>
    environ w ''BACKUP_BUCKET'' = Some b \<and> z \<in> set (HostedZones w) \<longrightarrow>
      objects (snd (multi_backup_lambda_handler w))
        (b, strftime (now w) ''%Y-%m-%d_%H:%M:%S'' @ ''/'' @ zone_name_of z @ ''/'' @ zone_id_of z
              @ ''/route53_backup.json'')
      = Some (Document
          (JObj [(''zone'',
                  JObj [(''Id'', JStr (zone_id_of z)), (''Name'', JStr (zone_name_of z)),
                        (''RecordCount'',
                         JNum (int (length (concat (ResourceRecordSets w (zone_id_of z))))))]),
                 (''records'', JArr (concat (ResourceRecordSets w (zone_id_of z))))]))) \<and>
   (d @ ''/'' @ zone_name_of z1 @ ''/route53_backup.json''
      = d @ ''/'' @ zone_name_of z2 @ ''/route53_backup.json''
    \<longleftrightarrow> zone_name_of z1 = zone_name_of z2) \<and>
   (fst (backup_lambda_handler w) = Returned r \<and> statusCode r = 200 \<and>
    environ w ''BACKUP_BUCKET'' = Some b \<and> z \<in> set (HostedZones w) \<and>
    inj_on zone_name_of (set (HostedZones w)) \<longrightarrow>
      objects (snd (backup_lambda_handler w))
        (b, strftime (now w) ''%Y%m%d_%H%M%S'' @ ''/'' @ zone_name_of z @ ''/route53_backup.json'')
      = Some (Document
          (JObj [(''zone'', JObj [(''Id'', JStr (zone_id_of z)), (''Name'', JStr (zone_name_of z))]),
                 (''records'', JArr (concat (ResourceRecordSets w (zone_id_of z))))])))"
proof (intro conjI impI)
  show "d @ ''/'' @ zone_name_of z1 @ ''/'' @ zone_id_of z1 @ ''/route53_backup.json''
      = d @ ''/'' @ zone_name_of z2 @ ''/'' @ zone_id_of z2 @ ''/route53_backup.json''
    \<longleftrightarrow> zone_name_of z1 = zone_name_of z2 \<and> zone_id_of z1 = zone_id_of z2"
    using multi_zone_key_eq[of d z1 z2]
    by (simp only: multi_zone_key_def multi_backup_file_key_def)
next
  show "d @ ''/'' @ zone_name_of z1 @ ''/'' @ zone_id_of z1 @ ''/route53_backup.json''
     \<noteq> d @ ''/'' @ n @ ''/zone_summary.json''"
    using summary_key_not_backup_key[of d n d "zone_name_of z1" "zone_id_of z1"]
    by (simp only: summary_file_key_def multi_backup_file_key_def) metis
next
  assume "fst (multi_backup_lambda_handler w) = Returned r \<and> statusCode r = 200 \<and>
    environ w ''BACKUP_BUCKET'' = Some b \<and> z \<in> set (HostedZones w)"
  hence a: "fst (multi_backup_lambda_handler w) = Returned r" "statusCode r = 200"
    "environ w ''BACKUP_BUCKET'' = Some b" "z \<in> set (HostedZones w)" by simp_all
  from multi_backup_documents_stored[OF a]
  show "objects (snd (multi_backup_lambda_handler w))
        (b, strftime (now w) ''%Y-%m-%d_%H:%M:%S'' @ ''/'' @ zone_name_of z @ ''/'' @ zone_id_of z
              @ ''/route53_backup.json'')
      = Some (Document
          (JObj [(''zone'',
                  JObj [(''Id'', JStr (zone_id_of z)), (''Name'', JStr (zone_name_of z)),
                        (''RecordCount'',
                         JNum (int (length (concat (ResourceRecordSets w (zone_id_of z))))))]),
                 (''records'', JArr (concat (ResourceRecordSets w (zone_id_of z))))]))"
    by (simp only: multi_zone_key_def multi_backup_file_key_def multi_zone_document_def
        multi_backup_data_def zone_records_def)
next
  show "d @ ''/'' @ zone_name_of z1 @ ''/route53_backup.json''
      = d @ ''/'' @ zone_name_of z2 @ ''/route53_backup.json''
    \<longleftrightarrow> zone_name_of z1 = zone_name_of z2"
    by simp
next
  assume "fst (backup_lambda_handler w) = Returned r \<and> statusCode r = 200 \<and>
    environ w ''BACKUP_BUCKET'' = Some b \<and> z \<in> set (HostedZones w) \<and>
    inj_on zone_name_of (set (HostedZones w))"
  hence a: "fst (backup_lambda_handler w) = Returned r" "statusCode r = 200"
    "environ w ''BACKUP_BUCKET'' = Some b" "z \<in> set (HostedZones w)"
    "inj_on zone_name_of (set (HostedZones w))" by simp_all
  from backup_documents_stored[OF a]
  show "objects (snd (backup_lambda_handler w))
        (b, strftime (now w) ''%Y%m%d_%H%M%S'' @ ''/'' @ zone_name_of z @ ''/route53_backup.json'')
      = Some (Document
          (JObj [(''zone'', JObj [(''Id'', JStr (zone_id_of z)), (''Name'', JStr (zone_name_of z))]),
                 (''records'', JArr (concat (ResourceRecordSets w (zone_id_of z))))]))"
    by (simp only: zone_key_def backup_file_key_def zone_document_def backup_data_def
        zone_records_def)
qed

theorem backup_documents_kept_witness:
  "objects (snd (multi_backup_lambda_handler (backup_world [] Map.empty [])))
     (''backups'', ''2024-01-02_03:04:05/example.com/Z1/route53_backup.json'')
   = Some (Document
       (JObj [(''zone'', JObj [(''Id'', JStr ''Z1''), (''Name'', JStr ''example.com''),
                               (''RecordCount'', JNum 3)]),
              (''records'', JArr [record_SOA, record_NS, record_A])]))"
proof -
  let ?W = "backup_world [] Map.empty []"
  let ?z = "\<lparr>zone_Id = ''/hostedzone/Z1'', zone_Name = ''example.com.''\<rparr>"
  have "\<exists>r. fst (multi_backup_lambda_handler ?W) = Returned r \<and> statusCode r = 200"
    by (simp add: multi_backup_lambda_handler_def multi_backup_try_def backup_world_def
        list_hosted_zones_def request_def multi_backup_zone_def put_object_def get_object_def
        update_summary_def read_summary_def count_zone_name_def NoSuchKey_def Let_def
        scenario_zones_def zone_name_of_def rstrip_def zone_id_of_def
        multi_backup_file_key_def summary_file_key_def)
  then obtain r where r: "fst (multi_backup_lambda_handler ?W) = Returned r" "statusCode r = 200"
    by blast
  have e: "environ ?W ''BACKUP_BUCKET'' = Some ''backups''" by (simp add: backup_world_def)
  have z: "?z \<in> set (HostedZones ?W)" by (simp add: backup_world_def scenario_zones_def)
  have t: "strftime (now ?W) ''%Y-%m-%d_%H:%M:%S'' = ''2024-01-02_03:04:05''"
    by (simp add: backup_world_def decimal.simps two_digits_def digit_def)
  have i: "zone_id_of ?z = ''Z1''" by (simp add: zone_id_of_def)
  have n: "zone_name_of ?z = ''example.com''" by (simp add: zone_name_of_def rstrip_def)
  have p: "ResourceRecordSets ?W ''Z1'' = [[record_SOA, record_NS], [record_A]]"
    by (simp add: backup_world_def)
  from backup_documents_kept[where w="?W" and r=r and b="''backups''" and z="?z"] r e z
  have "objects (snd (multi_backup_lambda_handler ?W))
        (''backups'', strftime (now ?W) ''%Y-%m-%d_%H:%M:%S'' @ ''/'' @ zone_name_of ?z @ ''/'' @ zone_id_of ?z
              @ ''/route53_backup.json'')
      = Some (Document
          (JObj [(''zone'',
                  JObj [(''Id'', JStr (zone_id_of ?z)), (''Name'', JStr (zone_name_of ?z)),
                        (''RecordCount'',
                         JNum (int (length (concat (ResourceRecordSets ?W (zone_id_of ?z))))))]),
                 (''records'', JArr (concat (ResourceRecordSets ?W (zone_id_of ?z))))]))"
    by blast
  thus ?thesis unfolding t i n p by simp
qed

end
